theory Spec2Isabelle
  imports Main
begin

section \<open>Python dictionaries as association lists\<close>

text \<open>
  A Python \<open>dict\<close> keeps its keys in insertion order and has no duplicate keys.
  It is modelled as an association list: \<open>d.get(k)\<close> is \<open>map_of d k\<close>, and
  \<open>d[k] = v\<close> overwrites the value in place when the key is present and appends the
  pair at the end otherwise.
\<close>

fun dict_set :: "('k \<times> 'v) list \<Rightarrow> 'k \<Rightarrow> 'v \<Rightarrow> ('k \<times> 'v) list" where
  "dict_set [] k v = [(k, v)]"
| "dict_set ((k', v') # d) k v =
     (if k' = k then (k, v) # d else (k', v') # dict_set d k v)"

definition dict_get :: "('k \<times> 'v) list \<Rightarrow> 'k \<Rightarrow> 'v \<Rightarrow> 'v" where
  \<comment> \<open>\<open>d.get(k, default)\<close>\<close>
  "dict_get d k dflt = (case map_of d k of None \<Rightarrow> dflt | Some v \<Rightarrow> v)"

definition dict_update :: "('k \<times> 'v) list \<Rightarrow> ('k \<times> 'v) list \<Rightarrow> ('k \<times> 'v) list" where
  \<comment> \<open>\<open>d.update(other)\<close>: the pairs of \<open>other\<close> are stored one after the other\<close>
  "dict_update d other = fold (\<lambda>(k, v) acc. dict_set acc k v) other d"

section \<open>The structured oracle call: \<open>OpenAIService.invoke_json\<close>\<close>

text \<open>
  Source: \<open>src/utils/llm_service.py\<close>. The parsed JSON values are a datatype; the
  standard library's \<open>json.loads\<close> is a parameter \<open>loads\<close> of the model, returning
  \<open>Inl msg\<close> where Python raises \<open>JSONDecodeError\<close> with message \<open>msg\<close>. The model
  behind \<open>invoke\<close> is a parameter \<open>llm\<close>, returning \<open>Inl e\<close> where the call raises.
\<close>

datatype json =
    JNull
  | JBool bool
  | JNum int
  | JStr string
  | JArr "json list"
  | JObj "(string \<times> json) list"

datatype llm_error = LLMCallFailed string

text \<open>
  Strings are the UTF-8 bytes of the Python text. \<open>str.strip()\<close> removes the
  characters for which \<open>str.isspace\<close> holds from both ends: the ASCII ones, and
  U+0085, U+00A0, U+1680, U+2000 to U+200A, U+2028, U+2029, U+202F, U+205F and U+3000,
  which are two or three bytes long.
\<close>

definition space1 :: "char \<Rightarrow> bool" where
  \<comment> \<open>U+0009 to U+000D, U+001C to U+001F and U+0020\<close>
  "space1 a = (a \<in> set [CHR 0x09, CHR 0x0A, CHR 0x0B, CHR 0x0C, CHR 0x0D,
                          CHR 0x1C, CHR 0x1D, CHR 0x1E, CHR 0x1F, CHR 0x20])"

definition space2 :: "char \<Rightarrow> char \<Rightarrow> bool" where
  \<comment> \<open>U+0085 and U+00A0\<close>
  "space2 a b = (a = CHR 0xC2 \<and> b \<in> set [CHR 0x85, CHR 0xA0])"

definition space3 :: "char \<Rightarrow> char \<Rightarrow> char \<Rightarrow> bool" where
  \<comment> \<open>U+1680; U+2000 to U+200A, U+2028, U+2029, U+202F; U+205F; U+3000\<close>
  "space3 a b c =
     ((a = CHR 0xE1 \<and> b = CHR 0x9A \<and> c = CHR 0x80) \<or>
      (a = CHR 0xE2 \<and> b = CHR 0x80 \<and>
         c \<in> set [CHR 0x80, CHR 0x81, CHR 0x82, CHR 0x83, CHR 0x84, CHR 0x85, CHR 0x86,
                   CHR 0x87, CHR 0x88, CHR 0x89, CHR 0x8A, CHR 0xA8, CHR 0xA9, CHR 0xAF]) \<or>
      (a = CHR 0xE2 \<and> b = CHR 0x81 \<and> c = CHR 0x9F) \<or>
      (a = CHR 0xE3 \<and> b = CHR 0x80 \<and> c = CHR 0x80))"

fun lstrip :: "string \<Rightarrow> string" where
  "lstrip (a # b # c # rest) =
     (if space1 a then lstrip (b # c # rest)
      else if space2 a b then lstrip (c # rest)
      else if space3 a b c then lstrip rest
      else a # b # c # rest)"
| "lstrip [a, b] =
     (if space1 a then lstrip [b] else if space2 a b then [] else [a, b])"
| "lstrip [a] = (if space1 a then [] else [a])"
| "lstrip [] = []"

fun rstrip_rev :: "string \<Rightarrow> string" where
  \<comment> \<open>the same from the right end, on the reversed string\<close>
  "rstrip_rev (c # b # a # rest) =
     (if space1 c then rstrip_rev (b # a # rest)
      else if space2 b c then rstrip_rev (a # rest)
      else if space3 a b c then rstrip_rev rest
      else c # b # a # rest)"
| "rstrip_rev [c, b] =
     (if space1 c then rstrip_rev [b] else if space2 b c then [] else [c, b])"
| "rstrip_rev [c] = (if space1 c then [] else [c])"
| "rstrip_rev [] = []"

definition py_strip :: "string \<Rightarrow> string" where
  \<comment> \<open>\<open>s.strip()\<close>\<close>
  "py_strip s = rev (rstrip_rev (rev (lstrip s)))"

definition endswith :: "string \<Rightarrow> string \<Rightarrow> bool" where
  "endswith s suffix = (length suffix \<le> length s \<and> drop (length s - length suffix) s = suffix)"

definition json_only_suffix :: string where
  \<comment> \<open>the UTF-8 bytes of the instruction appended to the prompt: two newlines and a
      Chinese sentence asking for JSON only\<close>
  "json_only_suffix =
     [CHR 0x0A, CHR 0x0A, CHR 0xE8, CHR 0xAF, CHR 0xB7, CHR 0xE5, CHR 0x8F, CHR 0xAA,
      CHR 0xE8, CHR 0xBF, CHR 0x94, CHR 0xE5, CHR 0x9B, CHR 0x9E, CHR 0x4A, CHR 0x53,
      CHR 0x4F, CHR 0x4E, CHR 0xE6, CHR 0xA0, CHR 0xBC, CHR 0xE5, CHR 0xBC, CHR 0x8F,
      CHR 0xE7, CHR 0x9A, CHR 0x84, CHR 0xE5, CHR 0x86, CHR 0x85, CHR 0xE5, CHR 0xAE,
      CHR 0xB9, CHR 0xEF, CHR 0xBC, CHR 0x8C, CHR 0xE4, CHR 0xB8, CHR 0x8D, CHR 0xE8,
      CHR 0xA6, CHR 0x81, CHR 0xE6, CHR 0xB7, CHR 0xBB, CHR 0xE5, CHR 0x8A, CHR 0xA0,
      CHR 0xE4, CHR 0xBB, CHR 0xBB, CHR 0xE4, CHR 0xBD, CHR 0x95, CHR 0xE9, CHR 0xA2,
      CHR 0x9D, CHR 0xE5, CHR 0xA4, CHR 0x96, CHR 0xE7, CHR 0x9A, CHR 0x84, CHR 0xE8,
      CHR 0xA7, CHR 0xA3, CHR 0xE9, CHR 0x87, CHR 0x8A, CHR 0xE6, CHR 0x88, CHR 0x96,
      CHR 0xE8, CHR 0xAF, CHR 0xB4, CHR 0xE6, CHR 0x98, CHR 0x8E, CHR 0xE3, CHR 0x80,
      CHR 0x82]"

definition json_fail_prefix :: string where
  \<comment> \<open>the UTF-8 bytes of the prefix of the error text: \<open>JSON\<close>, the Chinese for
      "parsing failed", a colon and a space\<close>
  "json_fail_prefix =
     [CHR 0x4A, CHR 0x53, CHR 0x4F, CHR 0x4E, CHR 0xE8, CHR 0xA7, CHR 0xA3, CHR 0xE6,
      CHR 0x9E, CHR 0x90, CHR 0xE5, CHR 0xA4, CHR 0xB1, CHR 0xE8, CHR 0xB4, CHR 0xA5,
      CHR 0x3A, CHR 0x20]"

definition json_match :: "string \<Rightarrow> string option" where
  \<comment> \<open>\<open>re.search(r'({.*})', text, re.DOTALL)\<close>: from the first opening brace to the
      last closing brace after it\<close>
  "json_match text =
     (let r = dropWhile (\<lambda>c. c \<noteq> CHR 0x7B) text in
      if r = [] then None
      else let b = dropWhile (\<lambda>c. c \<noteq> CHR 0x7D) (rev (tl r)) in
           if b = [] then None else Some (CHR 0x7B # rev b))"

definition invoke_json ::
  "(string \<Rightarrow> string + json) \<Rightarrow> (string \<Rightarrow> llm_error + string) \<Rightarrow>
     string \<Rightarrow> json option \<Rightarrow> llm_error + json" where
  "invoke_json loads llm prompt default_value =
     (let prompt' = (if \<not> endswith (py_strip prompt) ''JSON''
                     then prompt @ json_only_suffix else prompt) in
      case llm prompt' of
        Inl e \<Rightarrow>
          \<comment> \<open>\<open>except Exception\<close>: the default when there is one, else re-raise\<close>
          (case default_value of Some d \<Rightarrow> Inr d | None \<Rightarrow> Inl e)
      | Inr response_text \<Rightarrow>
          (case loads (case json_match response_text of
                         Some json_str \<Rightarrow> json_str
                       | None \<Rightarrow> response_text) of
             Inr v \<Rightarrow> Inr v
           | Inl msg \<Rightarrow>
               \<comment> \<open>\<open>except json.JSONDecodeError\<close>\<close>
               (case default_value of
                  Some d \<Rightarrow> Inr d
                | None \<Rightarrow> Inr (JObj [(''error'', JStr (json_fail_prefix @ msg))]))))"

definition parsed_text :: "string \<Rightarrow> string" where
  \<comment> \<open>the text handed to \<open>json.loads\<close> for a response\<close>
  "parsed_text response_text =
     (case json_match response_text of Some json_str \<Rightarrow> json_str | None \<Rightarrow> response_text)"

definition sent_prompt :: "string \<Rightarrow> string" where
  \<comment> \<open>the prompt \<open>invoke_json\<close> sends to the model\<close>
  "sent_prompt prompt =
     (if \<not> endswith (py_strip prompt) ''JSON'' then prompt @ json_only_suffix else prompt)"

definition strict_loads :: "string \<Rightarrow> string + json" where
  \<comment> \<open>a parser for the examples: it accepts the empty object only\<close>
  "strict_loads s = (if s = ''{}'' then Inr (JObj []) else Inl ''Expecting value'')"

section \<open>The medical record: \<open>SupervisorAgent.create_student_medical_record\<close>\<close>

text \<open>
  Source: \<open>app/business_logic/agents/supervisor_agent.py\<close>. The two scale results are
  dictionaries from a scale's name to its result; a result whose \<open>final_score\<close> key is
  missing makes \<open>value["final_score"]\<close> raise, and the function's \<open>except\<close> then
  returns \<open>None\<close> without creating a record. Scores are Python integers.
\<close>

record scale_result =
  final_score :: "int option"

record record_state =
  student_id :: string
  initial_scales_result :: "(string \<times> scale_result) list option"
  scales_result_after_consultation :: "(string \<times> scale_result) list option"

record medical_record =
  studentId :: string
  status :: string
  therapyType :: string
  initialScaleResults :: "(string \<times> scale_result) list"
  finalScaleResults :: "(string \<times> scale_result) list"
  totalImprovementScore :: int

fun scale_total :: "int \<Rightarrow> (string \<times> scale_result) list \<Rightarrow> int option" where
  \<comment> \<open>\<open>for value in d.values(): total += value["final_score"]\<close>\<close>
  "scale_total acc [] = Some acc"
| "scale_total acc ((name, v) # rest) =
     (case final_score v of
        None \<Rightarrow> None
      | Some x \<Rightarrow> scale_total (acc + x) rest)"

definition create_student_medical_record ::
  "record_state \<Rightarrow> string \<Rightarrow> medical_record option" where
  \<comment> \<open>the record handed to \<open>memory_manager.create_medical_record\<close>, or \<open>None\<close> where
      the function has raised before that\<close>
  "create_student_medical_record state therapy_type =
     (case initial_scales_result state of
        None \<Rightarrow> None
      | Some pre \<Rightarrow>
          (case scale_total 0 pre of
             None \<Rightarrow> None
           | Some init_scale_total_score \<Rightarrow>
               (case scales_result_after_consultation state of
                  None \<Rightarrow> None
                | Some post \<Rightarrow>
                    (case scale_total 0 post of
                       None \<Rightarrow> None
                     | Some after_scale_total_score \<Rightarrow>
                         Some \<lparr> studentId = student_id state,
                                status = ''active'',
                                therapyType = therapy_type,
                                initialScaleResults = pre,
                                finalScaleResults = post,
                                totalImprovementScore =
                                  init_scale_total_score - after_scale_total_score \<rparr>))))"

definition score_sum :: "(string \<times> scale_result) list \<Rightarrow> int" where
  \<comment> \<open>the sum of \<open>final_score\<close> over the results of a dictionary\<close>
  "score_sum d = sum_list (map (\<lambda>(name, v). case final_score v of Some x \<Rightarrow> x | None \<Rightarrow> 0) d)"

definition all_scored :: "(string \<times> scale_result) list \<Rightarrow> bool" where
  "all_scored d = list_all (\<lambda>(name, v). final_score v \<noteq> None) d"

definition example_pre :: "(string \<times> scale_result) list" where
  "example_pre = [(''GHQ-20'', \<lparr>final_score = Some 6\<rparr>), (''CPSS'', \<lparr>final_score = Some 14\<rparr>)]"

definition example_post :: "(string \<times> scale_result) list" where
  "example_post = [(''GHQ-20'', \<lparr>final_score = Some 3\<rparr>), (''CPSS'', \<lparr>final_score = Some 9\<rparr>)]"

definition example_record_state :: record_state where
  "example_record_state =
     \<lparr> student_id = ''s1'',
       initial_scales_result = Some example_pre,
       scales_result_after_consultation = Some example_post \<rparr>"

section \<open>The consultation controller: the CBT stage loop\<close>

text \<open>
  Source: \<open>src/controllers/consultation_controller.py\<close>. The session state is a
  Python dictionary; the record below holds the keys the stage machine reads and writes.
  A key that may be absent is an option. The four stage names \<open>stage_1\<close> to
  \<open>stage_4\<close> are the only ones the controller writes, so they are a datatype, and a
  per-stage dictionary, which the code always creates with all four keys, is a function
  on it. The flag \<open>is_<stage>_complete\<close> is \<open>is_stage_complete st stage\<close>, with
  \<open>None\<close> while the key is absent.
\<close>

datatype stage = Stage1 | Stage2 | Stage3 | Stage4

datatype error = ConsultationError

record stage_config =
  max_dialogues :: "int option"
  required_elements :: "string list option"
  completion_threshold :: "int option"

record controller =
  cbt_stages :: "stage \<Rightarrow> stage_config"
  initial_topic_score :: "int option"
  reward_system :: "(string \<times> int) list"
  ablation_str :: string

record state =
  dialogue_history :: "string list"
  current_cbt_stage :: "stage option"
  cbt_stage_dialogues :: "(stage \<Rightarrow> int) option"
  cbt_stage_completions :: "(stage \<Rightarrow> string list) option"
  topic_scores :: "(string \<times> int) list option"
  core_topic :: "string option"
  cbt_topics_initialized :: bool
  is_stage_complete :: "stage \<Rightarrow> bool option"

text \<open>The configuration lookups, with the defaults the code passes to \<open>get\<close>.\<close>

definition max_dialogues_of :: "controller \<Rightarrow> stage \<Rightarrow> int" where
  "max_dialogues_of c s = (case max_dialogues (cbt_stages c s) of None \<Rightarrow> 5 | Some m \<Rightarrow> m)"

definition required_elements_of :: "controller \<Rightarrow> stage \<Rightarrow> string list" where
  "required_elements_of c s =
     (case required_elements (cbt_stages c s) of None \<Rightarrow> [] | Some r \<Rightarrow> r)"

definition completion_threshold_of :: "controller \<Rightarrow> stage \<Rightarrow> int" where
  "completion_threshold_of c s =
     (case completion_threshold (cbt_stages c s) of
        None \<Rightarrow> int (length (required_elements_of c s))
      | Some t \<Rightarrow> t)"

definition initial_topic_score_of :: "controller \<Rightarrow> int" where
  "initial_topic_score_of c = (case initial_topic_score c of None \<Rightarrow> 5 | Some i \<Rightarrow> i)"

text \<open>
  What the outside world answers during one turn of a stage. \<open>None\<close> stands for a call
  that raised. The strings are the values after the code's own \<open>strip()\<close>.
\<close>

record relevance =
  relevance_score :: "string option"
  new_topic :: string

record turn_oracle =
  therapist_speak :: "string option"
  user_input :: "string option"
  topic_relevance :: "relevance option"
  stage_completion :: "string list option"
  memory_update_ok :: bool

definition default_topic :: string where
  \<comment> \<open>the UTF-8 bytes of the key of the fallback score table ("default topic")\<close>
  "default_topic =
     [CHR 0xE9, CHR 0xBB, CHR 0x98, CHR 0xE8, CHR 0xAE, CHR 0xA4,
      CHR 0xE8, CHR 0xAF, CHR 0x9D, CHR 0xE9, CHR 0xA2, CHR 0x98]"

definition default_focus :: string where
  \<comment> \<open>the UTF-8 bytes of the focus used when there is no core topic ("emotional distress")\<close>
  "default_focus =
     [CHR 0xE6, CHR 0x83, CHR 0x85, CHR 0xE7, CHR 0xBB, CHR 0xAA,
      CHR 0xE5, CHR 0x9B, CHR 0xB0, CHR 0xE6, CHR 0x89, CHR 0xB0]"

definition user_prefix :: string where
  "user_prefix = [CHR 0xE7, CHR 0x94, CHR 0xA8, CHR 0xE6, CHR 0x88, CHR 0xB7,
                  CHR 0xEF, CHR 0xBC, CHR 0x9A]"

definition therapist_prefix :: string where
  "therapist_prefix = [CHR 0xE5, CHR 0x92, CHR 0xA8, CHR 0xE8, CHR 0xAF, CHR 0xA2,
                       CHR 0xE5, CHR 0xB8, CHR 0x88, CHR 0xEF, CHR 0xBC, CHR 0x9A]"

definition initialize_state :: "state \<Rightarrow> state" where
  \<comment> \<open>\<open>_initialize_state\<close>: the stage-machine keys it sets; the completion flags are
      not among them\<close>
  "initialize_state st =
     st\<lparr> dialogue_history := [],
         current_cbt_stage := Some Stage1,
         cbt_stage_dialogues := Some (\<lambda>s. 0),
         cbt_stage_completions := Some (\<lambda>s. []),
         topic_scores := Some [],
         core_topic := Some [],
         cbt_topics_initialized := False \<rparr>"

definition initialize_cbt_topics :: "controller \<Rightarrow> state \<Rightarrow> string option \<Rightarrow> error + state" where
  \<comment> \<open>\<open>_initialize_cbt_topics\<close>; the third argument is the supervisor's answer\<close>
  "initialize_cbt_topics c st answer =
     (let st1 = (case cbt_stage_dialogues st of
                   None \<Rightarrow> st\<lparr>cbt_stage_dialogues := Some (\<lambda>s. 0)\<rparr>
                 | Some d \<Rightarrow> st);
          st2 = (case cbt_stage_completions st1 of
                   None \<Rightarrow> st1\<lparr>cbt_stage_completions := Some (\<lambda>s. [])\<rparr>
                 | Some cs \<Rightarrow> st1)
      in case answer of
           None \<Rightarrow> Inl ConsultationError
         | Some new_core \<Rightarrow>
             if cbt_topics_initialized st2 then Inr st2
             else
               let initial_score = initial_topic_score_of c;
                   core = (case core_topic st2 of
                             None \<Rightarrow> new_core
                           | Some t \<Rightarrow> if t = [] then new_core else t);
                   st3 = st2\<lparr>core_topic := Some core\<rparr>;
                   st4 = (case topic_scores st3 of
                            None \<Rightarrow> st3\<lparr>topic_scores := Some [(core, initial_score)]\<rparr>
                          | Some ts \<Rightarrow>
                              if ts = [] then st3\<lparr>topic_scores := Some [(core, initial_score)]\<rparr>
                              else st3)
               in Inr (st4\<lparr>cbt_topics_initialized := True\<rparr>))"

fun max_item :: "('k \<times> int) \<Rightarrow> ('k \<times> int) list \<Rightarrow> ('k \<times> int)" where
  \<comment> \<open>\<open>max(items, key=lambda x: x[1])\<close>: the first item with the greatest score\<close>
  "max_item best [] = best"
| "max_item best (x # xs) = (if snd best < snd x then max_item x xs else max_item best xs)"

definition select_best_topic :: "state \<Rightarrow> string" where
  "select_best_topic st =
     (case topic_scores st of
        Some (p # ps) \<Rightarrow> fst (max_item p ps)
      | _ \<Rightarrow> (case core_topic st of None \<Rightarrow> default_focus | Some t \<Rightarrow> t))"

definition update_topic_scores :: "controller \<Rightarrow> state \<Rightarrow> relevance option \<Rightarrow> string \<Rightarrow> state" where
  \<comment> \<open>\<open>_update_topic_scores\<close>: an exception inside is logged and the state left as it is\<close>
  "update_topic_scores c st result current_topic =
     (case result of
        None \<Rightarrow> st
      | Some r \<Rightarrow>
          (case topic_scores st of
             None \<Rightarrow> st
           | Some ts \<Rightarrow>
               let rel = (case relevance_score r of None \<Rightarrow> ''slightly_relevant'' | Some l \<Rightarrow> l);
                   score_change = dict_get (reward_system c) rel 0;
                   ts1 = dict_set ts current_topic (dict_get ts current_topic 5 + score_change);
                   ts2 = (if new_topic r \<noteq> [] \<and> map_of ts1 (new_topic r) = None
                          then dict_set ts1 (new_topic r) (initial_topic_score_of c)
                          else ts1)
               in st\<lparr>topic_scores := Some ts2\<rparr>))"

definition add_completed :: "string list \<Rightarrow> string list \<Rightarrow> string list" where
  \<comment> \<open>\<open>for element in completed: if element not in done: done.append(element)\<close>\<close>
  "add_completed completed done =
     fold (\<lambda>element acc. if element \<in> set acc then acc else acc @ [element]) completed done"

definition evaluate_stage_completion ::
  "controller \<Rightarrow> state \<Rightarrow> stage \<Rightarrow> string list option \<Rightarrow> state" where
  \<comment> \<open>\<open>_evaluate_stage_completion\<close>; the last argument is the evaluator's
      \<open>completed_elements\<close>, and an exception inside is logged only\<close>
  "evaluate_stage_completion c st stage_name result =
     (case result of
        None \<Rightarrow> st
      | Some completed \<Rightarrow>
          (case cbt_stage_completions st of
             None \<Rightarrow> st
           | Some cs \<Rightarrow>
               let total_required = int (length (required_elements_of c stage_name));
                   now = add_completed completed (cs stage_name);
                   st1 = st\<lparr>cbt_stage_completions := Some (cs(stage_name := now))\<rparr>
               in if total_required \<le> int (length now) \<and> 0 < total_required
                  then (case cbt_stage_dialogues st1 of
                          None \<Rightarrow> st1
                        | Some d \<Rightarrow>
                            st1\<lparr> cbt_stage_dialogues := Some (d(stage_name := 1)),
                                  is_stage_complete :=
                                    (is_stage_complete st1)(stage_name := Some True) \<rparr>)
                  else st1))"

definition ensure_stage_dialogues :: "state \<Rightarrow> state" where
  "ensure_stage_dialogues st =
     (case cbt_stage_dialogues st of
        Some d \<Rightarrow> st
      | None \<Rightarrow> if cbt_topics_initialized st then st
                else st\<lparr>cbt_stage_dialogues := Some (\<lambda>s. 0)\<rparr>)"

definition ensure_stage_completions :: "state \<Rightarrow> state" where
  "ensure_stage_completions st =
     (case cbt_stage_completions st of
        Some cs \<Rightarrow> st
      | None \<Rightarrow> if cbt_topics_initialized st then st
                else st\<lparr>cbt_stage_completions := Some (\<lambda>s. [])\<rparr>)"

definition ensure_topic_scores :: "state \<Rightarrow> state" where
  "ensure_topic_scores st =
     (case topic_scores st of
        Some ts \<Rightarrow> st
      | None \<Rightarrow> if cbt_topics_initialized st then st
                else st\<lparr>topic_scores := Some [(default_topic, 5)]\<rparr>)"

definition handle_cbt_stage ::
  "controller \<Rightarrow> state \<Rightarrow> stage \<Rightarrow> turn_oracle \<Rightarrow> error + state" where
  \<comment> \<open>\<open>_handle_cbt_stage\<close>: one turn of a stage. Every exception leaves as
      \<open>ConsultationError\<close>; reading the counter or the completed list of the stage
      raises when its dictionary is absent.\<close>
  "handle_cbt_stage c st stage_name orc =
     (let st0 = ensure_topic_scores (ensure_stage_completions (ensure_stage_dialogues st)) in
      if cbt_stage_dialogues st0 = None \<or> cbt_stage_completions st0 = None
      then Inl ConsultationError
      else
        let st1 = st0\<lparr>current_cbt_stage := Some stage_name\<rparr>;
            current_topic = select_best_topic st1
        in case therapist_speak orc of
             None \<Rightarrow> Inl ConsultationError
           | Some response \<Rightarrow>
               let st2 = st1\<lparr>dialogue_history :=
                                dialogue_history st1 @ [therapist_prefix @ response]\<rparr>
               in case user_input orc of
                    None \<Rightarrow> Inl ConsultationError
                  | Some user_response \<Rightarrow>
                      let st3 = st2\<lparr>dialogue_history :=
                                       dialogue_history st2 @ [user_prefix @ user_response]\<rparr>;
                          st4 = update_topic_scores c st3 (topic_relevance orc) current_topic;
                          st5 = evaluate_stage_completion c st4 stage_name (stage_completion orc)
                      in if ablation_str c \<noteq> ''wo-memory'' \<and> \<not> memory_update_ok orc
                         then Inl ConsultationError
                         else (case cbt_stage_dialogues st5 of
                                 None \<Rightarrow> Inl ConsultationError
                               | Some d \<Rightarrow>
                                   Inr (st5\<lparr>cbt_stage_dialogues :=
                                              Some (d(stage_name := d stage_name + 1))\<rparr>)))"

definition check_cbt_stage_complete :: "controller \<Rightarrow> state \<Rightarrow> error + state" where
  \<comment> \<open>\<open>_check_cbt_stage_complete\<close>, the node that follows each stage's handler\<close>
  "check_cbt_stage_complete c st =
     (let st0 = ensure_stage_completions (ensure_stage_dialogues st);
          stage_name = (case current_cbt_stage st0 of None \<Rightarrow> Stage1 | Some s \<Rightarrow> s);
          max_d = max_dialogues_of c stage_name
      in case cbt_stage_dialogues st0 of
           None \<Rightarrow> Inl ConsultationError
         | Some d \<Rightarrow>
             if max_d \<le> d stage_name
             then Inr (st0\<lparr>is_stage_complete :=
                             (is_stage_complete st0)(stage_name := Some True)\<rparr>)
             else (case cbt_stage_completions st0 of
                     None \<Rightarrow> Inl ConsultationError
                   | Some cs \<Rightarrow>
                       if completion_threshold_of c stage_name \<le> int (length (cs stage_name))
                       then Inr (st0\<lparr>is_stage_complete :=
                                       (is_stage_complete st0)(stage_name := Some True)\<rparr>)
                       else Inr (st0\<lparr>is_stage_complete :=
                                       (is_stage_complete st0)(stage_name := Some False)\<rparr>)))"

definition should_continue_cbt_stage :: "state \<Rightarrow> stage \<Rightarrow> bool" where
  "should_continue_cbt_stage st stage_name =
     (\<not> (case is_stage_complete st stage_name of None \<Rightarrow> False | Some b \<Rightarrow> b))"

text \<open>
  The loop of one stage in the graph: the handler, the check, and the conditional edge
  back to the handler. Each turn consumes one answer of the outside world; when the
  answers run out before the stage is complete the loop has not returned (\<open>None\<close>).
  The result carries the number of turns the stage took.
\<close>

fun cbt_stage_loop ::
  "controller \<Rightarrow> stage \<Rightarrow> state \<Rightarrow> turn_oracle list \<Rightarrow> (error + state \<times> nat) option" where
  "cbt_stage_loop c s st [] = None"
| "cbt_stage_loop c s st (orc # rest) =
     (case handle_cbt_stage c st s orc of
        Inl e \<Rightarrow> Some (Inl e)
      | Inr st1 \<Rightarrow>
          (case check_cbt_stage_complete c st1 of
             Inl e \<Rightarrow> Some (Inl e)
           | Inr st2 \<Rightarrow>
               if should_continue_cbt_stage st2 s
               then (case cbt_stage_loop c s st2 rest of
                       None \<Rightarrow> None
                     | Some (Inl e) \<Rightarrow> Some (Inl e)
                     | Some (Inr (st3, n)) \<Rightarrow> Some (Inr (st3, Suc n)))
               else Some (Inr (st2, 1))))"

text \<open>
  The nodes of the graph that touch the stage machine, and a run along a path of them.
  In the graph \<open>initialize\<close> comes first, \<open>initialize_cbt_topics\<close> follows it before
  any stage, and each stage handler is followed by the check.
\<close>

datatype node =
    InitializeCbtTopics "string option"
  | CbtStage stage turn_oracle
  | CheckStageComplete

fun run_node :: "controller \<Rightarrow> state \<Rightarrow> node \<Rightarrow> error + state" where
  "run_node c st (InitializeCbtTopics answer) = initialize_cbt_topics c st answer"
| "run_node c st (CbtStage s orc) = handle_cbt_stage c st s orc"
| "run_node c st CheckStageComplete = check_cbt_stage_complete c st"

fun run_nodes :: "controller \<Rightarrow> state \<Rightarrow> node list \<Rightarrow> error + state" where
  "run_nodes c st [] = Inr st"
| "run_nodes c st (n # ns) =
     (case run_node c st n of Inl e \<Rightarrow> Inl e | Inr st' \<Rightarrow> run_nodes c st' ns)"

definition stage_turns :: "state \<Rightarrow> stage \<Rightarrow> int option" where
  \<comment> \<open>\<open>state["cbt_stage_dialogues"][stage]\<close>\<close>
  "stage_turns st s = map_option (\<lambda>d. d s) (cbt_stage_dialogues st)"

definition completed_count :: "state \<Rightarrow> stage \<Rightarrow> int option" where
  \<comment> \<open>\<open>len(state["cbt_stage_completions"][stage])\<close>\<close>
  "completed_count st s = map_option (\<lambda>cs. int (length (cs s))) (cbt_stage_completions st)"

definition reached :: "int option \<Rightarrow> int \<Rightarrow> bool" where
  \<comment> \<open>a count that is present and at least the bound\<close>
  "reached n bound = (case n of None \<Rightarrow> False | Some k \<Rightarrow> bound \<le> k)"

text \<open>The configuration and the answers of the specification's examples.\<close>

definition example_stage :: stage_config where
  "example_stage =
     \<lparr> max_dialogues = Some 5,
       required_elements = Some [''A'', ''B'', ''C''],
       completion_threshold = Some 3 \<rparr>"

definition example_controller :: controller where
  "example_controller =
     \<lparr> cbt_stages = (\<lambda>s. example_stage),
       initial_topic_score = Some 5,
       reward_system = [(''relevant'', 2), (''slightly_relevant'', 0), (''irrelevant'', -1)],
       ablation_str = ''none'' \<rparr>"

definition reports :: "string list \<Rightarrow> turn_oracle" where
  \<comment> \<open>a turn in which the evaluator reports the given elements as completed\<close>
  "reports els =
     \<lparr> therapist_speak = Some ''What went through your mind?'',
       user_input = Some ''I thought I would fail.'',
       topic_relevance = Some \<lparr>relevance_score = Some ''relevant'', new_topic = []\<rparr>,
       stage_completion = Some els,
       memory_update_ok = True \<rparr>"

definition blank_state :: state where
  \<comment> \<open>the state dictionary of a new session, before the \<open>initialize\<close> node\<close>
  "blank_state =
     \<lparr> dialogue_history = [],
       current_cbt_stage = None,
       cbt_stage_dialogues = None,
       cbt_stage_completions = None,
       topic_scores = None,
       core_topic = None,
       cbt_topics_initialized = False,
       is_stage_complete = (\<lambda>s. None) \<rparr>"

definition current_stage :: "state \<Rightarrow> stage" where
  \<comment> \<open>\<open>state.get("current_cbt_stage", "stage_1")\<close>\<close>
  "current_stage st = (case current_cbt_stage st of None \<Rightarrow> Stage1 | Some s \<Rightarrow> s)"

definition enter_stages :: "controller \<Rightarrow> state \<Rightarrow> string option \<Rightarrow> error + state" where
  \<comment> \<open>the nodes \<open>initialize\<close> and \<open>initialize_cbt_topics\<close>, which every session runs
      before its first stage\<close>
  "enter_stages c st answer = initialize_cbt_topics c (initialize_state st) answer"

definition session_stage_turns ::
  "controller \<Rightarrow> stage \<Rightarrow> string option \<Rightarrow> turn_oracle list \<Rightarrow> nat option" where
  \<comment> \<open>the number of turns after which the stage of a new session is complete, when its
      loop returns\<close>
  "session_stage_turns c s answer orcs =
     (case enter_stages c blank_state answer of
        Inl e \<Rightarrow> None
      | Inr st \<Rightarrow>
          (case cbt_stage_loop c s st orcs of
             Some (Inr (st', n)) \<Rightarrow> Some n
           | _ \<Rightarrow> None))"

definition turns_after :: "controller \<Rightarrow> string option \<Rightarrow> node list \<Rightarrow> stage \<Rightarrow> int option" where
  \<comment> \<open>the turn counter of a stage after a new session has run the given nodes\<close>
  "turns_after c answer nodes s =
     (case enter_stages c blank_state answer of
        Inl e \<Rightarrow> None
      | Inr st \<Rightarrow> (case run_nodes c st nodes of Inl e \<Rightarrow> None | Inr st' \<Rightarrow> stage_turns st' s))"

definition all_stages :: "stage list" where
  "all_stages = [Stage1, Stage2, Stage3, Stage4]"

definition threshold_within_required :: "controller \<Rightarrow> bool" where
  \<comment> \<open>no stage asks for more completed elements than it has required elements\<close>
  "threshold_within_required c =
     list_all (\<lambda>s. completion_threshold_of c s \<le> int (length (required_elements_of c s)))
       all_stages"

definition no_stage_complete :: "state \<Rightarrow> bool" where
  \<comment> \<open>no completion flag is set: the state dictionary handed to a new session\<close>
  "no_stage_complete st = list_all (\<lambda>s. is_stage_complete st s \<noteq> Some True) all_stages"

definition flags_justified :: "controller \<Rightarrow> state \<Rightarrow> bool" where
  \<comment> \<open>every flag that is set has its reason in the counters\<close>
  "flags_justified c st =
     list_all (\<lambda>s. is_stage_complete st s = Some True \<longrightarrow>
                    reached (stage_turns st s) (max_dialogues_of c s) \<or>
                    reached (completed_count st s) (completion_threshold_of c s))
       all_stages"

definition example_earlier :: "node list" where
  "example_earlier = [InitializeCbtTopics (Some ''exam anxiety''), CbtStage Stage1 (reports [''A'', ''B'', ''C''])]"

definition example_later :: "node list" where
  "example_later = [CheckStageComplete, CbtStage Stage2 (reports [''A'']), CheckStageComplete, CbtStage Stage1 (reports []), CheckStageComplete]"

definition strict_stage :: stage_config where
  \<comment> \<open>a stage that asks for two completed elements and requires one\<close>
  "strict_stage = \<lparr> max_dialogues = Some 5, required_elements = Some [''A''], completion_threshold = Some 2 \<rparr>"

definition strict_controller :: controller where
  "strict_controller = example_controller\<lparr>cbt_stages := (\<lambda>s. strict_stage)\<rparr>"

definition flag_after :: "controller \<Rightarrow> string option \<Rightarrow> node list \<Rightarrow> stage \<Rightarrow> bool option" where
  \<comment> \<open>the completion flag of a stage after a new session has run the given nodes\<close>
  "flag_after c answer nodes s =
     (case enter_stages c blank_state answer of
        Inl e \<Rightarrow> None
      | Inr st \<Rightarrow> (case run_nodes c st nodes of Inl e \<Rightarrow> None | Inr st' \<Rightarrow> is_stage_complete st' s))"

definition required_completed_count :: "controller \<Rightarrow> state \<Rightarrow> stage \<Rightarrow> int option" where
  \<comment> \<open>the completed elements of the stage that are among its required elements,
      counted: the reading of the accumulated list that checks each element against
      \<open>required_elements\<close>, which the code never does\<close>
  "required_completed_count c st s =
     map_option (\<lambda>cs. int (length (filter (\<lambda>element. element \<in> set (required_elements_of c s))
                                      (cs s))))
       (cbt_stage_completions st)"

definition required_completed_after ::
  "controller \<Rightarrow> string option \<Rightarrow> node list \<Rightarrow> stage \<Rightarrow> int option" where
  \<comment> \<open>that count after a new session has run the given nodes\<close>
  "required_completed_after c answer nodes s =
     (case enter_stages c blank_state answer of
        Inl e \<Rightarrow> None
      | Inr st \<Rightarrow>
          (case run_nodes c st nodes of
             Inl e \<Rightarrow> None
           | Inr st' \<Rightarrow> required_completed_count c st' s))"






section \<open>The two memory stores\<close>

text \<open>
  Sources: \<open>app/data_access/memory/initializer.py\<close>, the two
  \<open>long_term_store.py\<close>, \<open>src/memory/json_store.py\<close> and
  \<open>src/memory/enhanced_memory_manager.py\<close>.

  A document is a JSON object. The model keeps its string-valued keys as a dictionary
  and, apart from them, the object under the key \<open>metadata\<close> that the documents of
  the vector collection carry. The primary store gives the list of documents of each
  collection (\<open>get_all_documents\<close>).

  The secondary store is the vector database, an external library. A collection is the
  list of its entries in store order; an entry has the identifier it was added under, the
  document (written as JSON text by \<open>json.dumps\<close>, so it always parses back) and
  its metadata. The library's \<open>collection.add\<close> is modelled by \<open>chroma_add\<close>:
  identifiers are unique within a collection, so adding an identifier that is present
  either changes nothing or raises, depending on the library's version, which is a
  parameter. The faults of the outside world are parameters as well: whether the client
  fails to open or create its collections (\<open>init_fails\<close>), whether the insertion of
  an identifier into a collection raises (\<open>add_fails\<close>), and whether reading a
  collection raises (\<open>get_fails\<close>, \<open>query_fails\<close>).
\<close>

record json_doc =
  doc_fields :: "(string \<times> string) list"
  metadata_obj :: "(string \<times> string) list option"

record entry =
  entry_id :: string
  document :: json_doc
  metadatas :: "(string \<times> string) list"

type_synonym json_store = "string \<Rightarrow> json_doc list"

type_synonym vector_store = "string \<Rightarrow> entry list"

record env =
  init_fails :: bool
  add_fails :: "string \<Rightarrow> string \<Rightarrow> bool"
  get_fails :: "string \<Rightarrow> bool"
  query_fails :: "string \<Rightarrow> bool"
  dup_raises :: bool

datatype failure =
    SyncFailed string
  | ImportFailed string string

definition doc_get :: "json_doc \<Rightarrow> string \<Rightarrow> string option" where
  \<comment> \<open>\<open>doc.get(key)\<close>\<close>
  "doc_get doc key = map_of (doc_fields doc) key"

definition entry_ids :: "entry list \<Rightarrow> string set" where
  "entry_ids coll = entry_id ` set coll"

definition chroma_add :: "env \<Rightarrow> string \<Rightarrow> entry list \<Rightarrow> entry \<Rightarrow> entry list option" where
  \<comment> \<open>\<open>collection.add(documents=[..], metadatas=[..], ids=[..])\<close>; \<open>None\<close> where it
      raises\<close>
  "chroma_add e collection_name coll x =
     (if add_fails e collection_name (entry_id x) then None
      else if entry_id x \<in> entry_ids coll
           then (if dup_raises e then None else Some coll)
           else Some (coll @ [x]))"

definition add_document ::
  "env \<Rightarrow> vector_store \<Rightarrow> string \<Rightarrow> string \<Rightarrow> json_doc \<Rightarrow> (string \<times> string) list \<Rightarrow>
     vector_store option" where
  \<comment> \<open>\<open>LongTermMemoryStore.add_document\<close>, for a collection that exists\<close>
  "add_document e store collection_name doc_id content metadata =
     (case chroma_add e collection_name (store collection_name)
             \<lparr>entry_id = doc_id, document = content, metadatas = metadata\<rparr> of
        None \<Rightarrow> None
      | Some coll \<Rightarrow> Some (store(collection_name := coll)))"

definition merged :: "entry \<Rightarrow> json_doc" where
  \<comment> \<open>the parsed document with its metadata merged in: \<open>parsed_doc.update(metadata)\<close>\<close>
  "merged x =
     (if metadatas x = [] then document x
      else (document x)\<lparr>doc_fields := dict_update (doc_fields (document x)) (metadatas x)\<rparr>)"

definition search_all :: "env \<Rightarrow> vector_store \<Rightarrow> string \<Rightarrow> nat \<Rightarrow> json_doc list" where
  \<comment> \<open>\<open>search_documents\<close> of \<open>app/data_access/memory/long_term_store.py\<close>:
      the first \<open>limit\<close> documents, or nothing when reading raises\<close>
  "search_all e store collection_name limit =
     (if get_fails e collection_name then []
      else map merged (take limit (store collection_name)))"

definition truthy_id :: "json_doc \<Rightarrow> string option" where
  \<comment> \<open>\<open>doc.get("id")\<close> when it is there and not empty\<close>
  "truthy_id doc =
     (case doc_get doc ''id'' of
        None \<Rightarrow> None
      | Some i \<Rightarrow> if i = [] then None else Some i)"

definition startswith :: "string \<Rightarrow> string \<Rightarrow> bool" where
  "startswith s prefix = (take (length prefix) s = prefix)"

fun split_on :: "char \<Rightarrow> string \<Rightarrow> string list" where
  \<comment> \<open>\<open>s.split(sep)\<close> for a separator of one character\<close>
  "split_on sep [] = [[]]"
| "split_on sep (x # xs) =
     (if x = sep then [] # split_on sep xs
      else (case split_on sep xs of
              [] \<Rightarrow> [[x]]
            | w # ws \<Rightarrow> (x # w) # ws))"

definition therapy_type_of :: "string \<Rightarrow> string" where
  \<comment> \<open>\<open>collection_name.split("_")[1]\<close>, read where the name starts with
      \<open>therapist_\<close>\<close>
  "therapy_type_of collection_name =
     (case split_on (CHR ''_'') collection_name of
        a # b # rest \<Rightarrow> b
      | _ \<Rightarrow> [])"

definition build_metadata_for_document :: "string \<Rightarrow> json_doc \<Rightarrow> (string \<times> string) list" where
  "build_metadata_for_document collection_name doc =
     (if collection_name = ''profiler_skills''
      then [(''agent_type'', ''profiler''),
            (''updated_at'', dict_get (doc_fields doc) ''timestamp'' [])]
      else if startswith collection_name ''therapist_''
      then [(''agent_type'', ''therapist''),
            (''therapy_type'', therapy_type_of collection_name),
            (''updated_at'', dict_get (doc_fields doc) ''timestamp'' [])]
      else if collection_name = ''medical_records''
      then [(''student_id'',
               dict_get (doc_fields doc) ''studentId'' (dict_get (doc_fields doc) ''student_id'' [])),
            (''created_at'',
               dict_get (doc_fields doc) ''createdAt'' (dict_get (doc_fields doc) ''created_at'' [])),
            (''type'', ''medical_record'')]
      else if collection_name = ''student_vectors''
      then (let m = (case metadata_obj doc of None \<Rightarrow> [] | Some m \<Rightarrow> m)
            in [(''student_id'', dict_get m ''student_id'' []),
                (''created_at'', dict_get m ''created_at'' []),
                (''record_id'', dict_get m ''record_id'' []),
                (''type'', ''student_vector'')])
      else [])"

fun sync_docs ::
  "env \<Rightarrow> string \<Rightarrow> string set \<Rightarrow> vector_store \<Rightarrow> json_doc list \<Rightarrow>
     vector_store \<times> failure list" where
  \<comment> \<open>the loop of \<open>_sync_collection\<close>; an exception leaves the loop for the handler
      around the whole function\<close>
  "sync_docs e collection_name vector_doc_ids store [] = (store, [])"
| "sync_docs e collection_name vector_doc_ids store (doc # rest) =
     (case truthy_id doc of
        None \<Rightarrow> sync_docs e collection_name vector_doc_ids store rest
      | Some doc_id \<Rightarrow>
          if doc_id \<in> vector_doc_ids
          then sync_docs e collection_name vector_doc_ids store rest
          else (case add_document e store collection_name doc_id doc
                       (build_metadata_for_document collection_name doc) of
                  None \<Rightarrow> (store, [SyncFailed collection_name])
                | Some store' \<Rightarrow> sync_docs e collection_name vector_doc_ids store' rest))"

definition seen_ids :: "env \<Rightarrow> vector_store \<Rightarrow> string \<Rightarrow> string set" where
  \<comment> \<open>\<open>{doc.get("id") for doc in vector_docs if doc.get("id")}\<close> over the search with
      \<open>limit=10000\<close>\<close>
  "seen_ids e store collection_name =
     set (List.map_filter truthy_id (search_all e store collection_name 10000))"

definition sync_collection ::
  "env \<Rightarrow> json_store \<Rightarrow> vector_store \<Rightarrow> string \<Rightarrow> vector_store \<times> failure list" where
  \<comment> \<open>\<open>_sync_collection\<close>\<close>
  "sync_collection e json store collection_name =
     (let json_docs = json collection_name in
      if json_docs = [] then (store, [])
      else sync_docs e collection_name (seen_ids e store collection_name) store json_docs)"

definition collection_names :: "string list \<Rightarrow> string list" where
  \<comment> \<open>the collections of a pass, for the configured therapy types\<close>
  "collection_names therapy_types =
     [''profiler_skills'', ''medical_records'', ''student_vectors''] @
     map (\<lambda>therapy_type. ''therapist_'' @ therapy_type @ ''_skills'') therapy_types"

fun sync_collections ::
  "env \<Rightarrow> json_store \<Rightarrow> vector_store \<Rightarrow> string list \<Rightarrow> vector_store \<times> failure list" where
  "sync_collections e json store [] = (store, [])"
| "sync_collections e json store (collection_name # rest) =
     (case sync_collection e json store collection_name of
        (store', log) \<Rightarrow>
          (case sync_collections e json store' rest of
             (store'', log') \<Rightarrow> (store'', log @ log')))"

definition sync_json_and_vector_db ::
  "env \<Rightarrow> string list \<Rightarrow> json_store \<Rightarrow> vector_store \<Rightarrow> vector_store \<times> failure list" where
  \<comment> \<open>\<open>_sync_json_and_vector_db\<close>\<close>
  "sync_json_and_vector_db e therapy_types json store =
     sync_collections e json store (collection_names therapy_types)"

definition format_doc :: "string \<Rightarrow> string \<Rightarrow> json_doc \<Rightarrow> json_doc" where
  \<comment> \<open>the body of the loop of \<open>json_to_vector_db_format\<close>: a copy of the document
      with the keys it lacks filled in\<close>
  "format_doc now collection_name doc =
     (let add = (\<lambda>key v d. if map_of d key = None then dict_set d key v else d) in
      if collection_name = ''profiler_skills''
      then doc\<lparr>doc_fields := add ''agent_type'' ''profiler''
                                (add ''timestamp'' now (doc_fields doc))\<rparr>
      else if startswith collection_name ''therapist_''
      then doc\<lparr>doc_fields := add ''therapy_type'' (therapy_type_of collection_name)
                                (add ''agent_type'' ''therapist''
                                   (add ''timestamp'' now (doc_fields doc)))\<rparr>
      else doc)"

definition json_to_vector_db_format :: "string \<Rightarrow> json_store \<Rightarrow> string \<Rightarrow> json_doc list" where
  \<comment> \<open>\<open>JSONMemoryStore.json_to_vector_db_format\<close>; the first argument is the clock's
      reading that fills a missing \<open>timestamp\<close>\<close>
  "json_to_vector_db_format now json collection_name =
     map (format_doc now collection_name) (json collection_name)"

definition import_metadata :: "string \<Rightarrow> json_doc \<Rightarrow> (string \<times> string) list" where
  \<comment> \<open>the metadata \<open>_import_collection\<close> builds\<close>
  "import_metadata collection_name doc =
     (if collection_name = ''profiler_skills''
      then [(''agent_type'', ''profiler''),
            (''updated_at'', dict_get (doc_fields doc) ''timestamp'' [])]
      else if startswith collection_name ''therapist_''
      then [(''agent_type'', ''therapist''),
            (''therapy_type'', therapy_type_of collection_name),
            (''updated_at'', dict_get (doc_fields doc) ''timestamp'' [])]
      else if collection_name = ''medical_records''
      then [(''student_id'', dict_get (doc_fields doc) ''student_id'' []),
            (''created_at'', dict_get (doc_fields doc) ''created_at'' []),
            (''type'', ''medical_record'')]
      else [])"

datatype py_error = KeyError | VectorDbError

fun import_docs ::
  "env \<Rightarrow> string \<Rightarrow> vector_store \<Rightarrow> json_doc list \<Rightarrow>
     py_error + vector_store \<times> failure list" where
  \<comment> \<open>the loop of \<open>_import_collection\<close>: \<open>doc["id"]\<close> raises when the key is
      missing, a failed insertion is logged and the loop goes on\<close>
  "import_docs e collection_name store [] = Inr (store, [])"
| "import_docs e collection_name store (doc # rest) =
     (case doc_get doc ''id'' of
        None \<Rightarrow> Inl KeyError
      | Some doc_id \<Rightarrow>
          (case add_document e store collection_name doc_id doc
                  (import_metadata collection_name doc) of
             None \<Rightarrow>
               (case import_docs e collection_name store rest of
                  Inl err \<Rightarrow> Inl err
                | Inr (store', log) \<Rightarrow>
                    Inr (store', ImportFailed collection_name doc_id # log))
           | Some store1 \<Rightarrow> import_docs e collection_name store1 rest))"

definition import_collection ::
  "env \<Rightarrow> string \<Rightarrow> json_store \<Rightarrow> vector_store \<Rightarrow> string \<Rightarrow>
     py_error + vector_store \<times> failure list" where
  \<comment> \<open>\<open>_import_collection\<close>\<close>
  "import_collection e now json store collection_name =
     import_docs e collection_name store (json_to_vector_db_format now json collection_name)"

text \<open>The documents and faults of the examples.\<close>

definition skill :: "string \<Rightarrow> json_doc" where
  "skill i = \<lparr>doc_fields = [(''id'', i), (''content'', ''X'')], metadata_obj = None\<rparr>"

definition example_json :: json_store where
  "example_json =
     (\<lambda>collection_name. if collection_name = ''profiler_skills''
                         then [skill ''s1'', skill ''s2'', skill ''s3''] else [])"

definition empty_store :: vector_store where
  "empty_store = (\<lambda>collection_name. [])"

definition no_faults :: env where
  "no_faults =
     \<lparr> init_fails = False, add_fails = (\<lambda>c i. False), get_fails = (\<lambda>c. False),
       query_fails = (\<lambda>c. False), dup_raises = False \<rparr>"

definition s1_fails :: env where
  \<comment> \<open>the insertion of the document \<open>s1\<close> raises, every other call succeeds\<close>
  "s1_fails = no_faults\<lparr>add_fails := (\<lambda>c i. i = ''s1'')\<rparr>"

definition s2_fails :: env where
  \<comment> \<open>the insertion of the document \<open>s2\<close> raises, every other call succeeds\<close>
  "s2_fails = no_faults\<lparr>add_fails := (\<lambda>c i. i = ''s2'')\<rparr>"

definition stored_ids :: "vector_store \<Rightarrow> string \<Rightarrow> string list" where
  "stored_ids store collection_name = map entry_id (store collection_name)"

fun import_collections ::
  "env \<Rightarrow> string \<Rightarrow> json_store \<Rightarrow> vector_store \<Rightarrow> string list \<Rightarrow>
     py_error + vector_store \<times> failure list" where
  \<comment> \<open>\<open>for collection_name in collections: await self._import_collection(..)\<close>\<close>
  "import_collections e now json store [] = Inr (store, [])"
| "import_collections e now json store (collection_name # rest) =
     (case import_collection e now json store collection_name of
        Inl err \<Rightarrow> Inl err
      | Inr (store', log) \<Rightarrow>
          (case import_collections e now json store' rest of
             Inl err \<Rightarrow> Inl err
           | Inr (store'', log') \<Rightarrow> Inr (store'', log @ log')))"

definition init_collections :: "env \<Rightarrow> vector_store \<Rightarrow> py_error + vector_store" where
  \<comment> \<open>\<open>LongTermMemoryStore.init_collections\<close>: every collection is opened, or created
      empty when opening it raises; an exception of \<open>create_collection\<close> is not
      caught. No document is touched.\<close>
  "init_collections e store = (if init_fails e then Inl VectorDbError else Inr store)"

definition rebuild_vector_db_from_json ::
  "env \<Rightarrow> string \<Rightarrow> string list \<Rightarrow> json_store \<Rightarrow> py_error + vector_store \<times> failure list" where
  \<comment> \<open>\<open>rebuild_vector_db_from_json\<close>: the directory of the vector database is removed
      and made anew, which leaves no document; the collections are initialised, which
      raises when the client cannot create them in the new directory; then every
      collection is imported. The step that follows,
      \<open>_rebuild_student_vectors_if_needed\<close>, adds nothing to the vector database: it
      reads the identifier out of the un-awaited result of an \<open>async\<close> function, which
      raises, and its own handler logs it.\<close>
  "rebuild_vector_db_from_json e now therapy_types json =
     (case init_collections e (\<lambda>collection_name. []) of
        Inl err \<Rightarrow> Inl err
      | Inr store \<Rightarrow> import_collections e now json store (collection_names therapy_types))"

definition initialize ::
  "env \<Rightarrow> string \<Rightarrow> bool \<Rightarrow> string list \<Rightarrow> json_store \<Rightarrow> vector_store \<Rightarrow>
     py_error + vector_store \<times> failure list" where
  \<comment> \<open>\<open>MemoryInitializer.initialize\<close>; \<open>vector_db_exists\<close> says whether the
      directory of the vector database exists and is not empty. The last step,
      \<open>_ensure_all_collections\<close>, creates the collections that are missing and logs
      what fails: it touches no document.\<close>
  "initialize e now vector_db_exists therapy_types json store =
     (if \<not> vector_db_exists then rebuild_vector_db_from_json e now therapy_types json
      else (case init_collections e store of
              Inl err \<Rightarrow> Inl err
            | Inr store1 \<Rightarrow> Inr (sync_json_and_vector_db e therapy_types json store1)))"

definition ids_after_two_runs ::
  "env \<Rightarrow> env \<Rightarrow> string list \<Rightarrow> json_store \<Rightarrow> vector_store \<Rightarrow> string \<Rightarrow>
     (string list \<times> string list) option" where
  \<comment> \<open>two runs of \<open>initialize\<close> in a row on an existing vector database, the second on
      the store the first left and with the primary store as it was: the identifiers of
      a collection after the first run and after the second\<close>
  "ids_after_two_runs e1 e2 therapy_types json store collection_name =
     (case initialize e1 ''1700000000'' True therapy_types json store of
        Inl err \<Rightarrow> None
      | Inr (store1, log1) \<Rightarrow>
          (case initialize e2 ''1700000060'' True therapy_types json store1 of
             Inl err \<Rightarrow> None
           | Inr (store2, log2) \<Rightarrow>
               Some (stored_ids store1 collection_name, stored_ids store2 collection_name)))"

definition mirrored :: "env \<Rightarrow> json_store \<Rightarrow> vector_store \<Rightarrow> string \<Rightarrow> bool" where
  \<comment> \<open>every identified document of the primary collection is known to the secondary
      one: the search under the given faults returns its identifier, or the collection
      has an entry under it\<close>
  "mirrored e json store collection_name =
     list_all (\<lambda>doc. case truthy_id doc of
                       None \<Rightarrow> True
                     | Some i \<Rightarrow> i \<in> seen_ids e store collection_name \<or>
                                 i \<in> entry_ids (store collection_name))
       (json collection_name)"

definition extends :: "vector_store \<Rightarrow> vector_store \<Rightarrow> bool" where
  \<comment> \<open>every collection of the second store starts with the entries of the first\<close>
  "extends S S' = (\<forall>c. \<exists>added. S' c = S c @ added)"

definition grown :: "env \<Rightarrow> vector_store \<Rightarrow> vector_store \<Rightarrow> bool" where
  \<comment> \<open>the second store is the first with entries added at the end of its collections,
      each under an identifier whose insertion does not raise and which the search
      reads back from the entry\<close>
  "grown e S S' =
     (\<forall>c. \<exists>added. S' c = S c @ added \<and>
        (\<forall>x \<in> set added. \<not> add_fails e c (entry_id x) \<and>
                          truthy_id (merged x) = Some (entry_id x)))"

section \<open>Skill memories: \<open>EnhancedMemoryManager.get_skill_memory\<close>\<close>

text \<open>
  Sources: \<open>src/memory/enhanced_memory_manager.py\<close> and \<open>search_documents\<close> of
  \<open>src/memory/long_term_store.py\<close>. The embedding service and the distance the
  vector database ranks by are parameters. The library's \<open>collection.query\<close> is
  modelled by its contract, the \<open>n_results\<close> entries nearest to the query vector;
  the field \<open>similarity\<close>, a floating-point number the search adds to each document
  it returns, is left out. A limit is a natural number.
\<close>

datatype 'v embedding = Embedded 'v | NoEmbedding | EmbeddingRaised

definition get_skill_collection_name :: "string \<Rightarrow> string option \<Rightarrow> string option" where
  \<comment> \<open>\<open>_get_skill_collection_name\<close>; \<open>None\<close> where it raises \<open>ValueError\<close>\<close>
  "get_skill_collection_name agent_type therapy_type =
     (if agent_type = ''profiler'' then Some ''profiler_skills''
      else if agent_type = ''therapist''
      then Some (''therapist_'' @ (case therapy_type of None \<Rightarrow> ''None'' | Some t \<Rightarrow> t)
                 @ ''_skills'')
      else None)"

definition chroma_query ::
  "('v \<Rightarrow> entry \<Rightarrow> 'd::linorder) \<Rightarrow> entry list \<Rightarrow> 'v \<Rightarrow> nat \<Rightarrow> entry list" where
  \<comment> \<open>\<open>collection.query(query_embeddings=[v], n_results=n)\<close>\<close>
  "chroma_query dist coll v n = take n (sort_key (dist v) coll)"

definition search_documents ::
  "env \<Rightarrow> ('v \<Rightarrow> entry \<Rightarrow> 'd::linorder) \<Rightarrow> vector_store \<Rightarrow> string \<Rightarrow> 'v option \<Rightarrow> nat \<Rightarrow>
     json_doc list" where
  \<comment> \<open>\<open>search_documents\<close> of \<open>src/memory/long_term_store.py\<close>, with
      \<open>filter_dict=None\<close>; an exception of the library is logged and the result empty\<close>
  "search_documents e dist store collection_name query_vector limit =
     (case query_vector of
        None \<Rightarrow>
          if get_fails e collection_name then []
          else map merged (take limit (store collection_name))
      | Some v \<Rightarrow>
          if query_fails e collection_name then []
          else map merged (chroma_query dist (store collection_name) v limit))"

definition get_skill_memory ::
  "env \<Rightarrow> (string \<Rightarrow> 'v embedding) \<Rightarrow> ('v \<Rightarrow> entry \<Rightarrow> 'd::linorder) \<Rightarrow> json_store \<Rightarrow>
     vector_store \<Rightarrow> string \<Rightarrow> string option \<Rightarrow> string option \<Rightarrow> nat \<Rightarrow> json_doc list" where
  "get_skill_memory e get_text_embedding dist json store agent_type therapy_type query_text limit =
     (case get_skill_collection_name agent_type therapy_type of
        None \<Rightarrow>
          \<comment> \<open>the handler reads the name that was never bound, and its own handler
              returns the empty list\<close>
          []
      | Some collection_name \<Rightarrow>
          (let full = search_documents e dist store collection_name None 100 in
           case query_text of
             None \<Rightarrow> full
           | Some text \<Rightarrow>
               if text = [] then full
               else (case get_text_embedding text of
                       Embedded query_vector \<Rightarrow>
                         search_documents e dist store collection_name (Some query_vector) limit
                     | NoEmbedding \<Rightarrow> full
                     | EmbeddingRaised \<Rightarrow>
                         \<comment> \<open>the handler falls back to the primary store\<close>
                         json collection_name)))"

text \<open>A store with two skills of the profiler, and an embedding service for the examples.\<close>

definition two_skills :: vector_store where
  "two_skills =
     (\<lambda>collection_name.
        if collection_name = ''profiler_skills''
        then [\<lparr>entry_id = ''s1'', document = skill ''s1'', metadatas = []\<rparr>,
              \<lparr>entry_id = ''s2'', document = skill ''s2'', metadatas = []\<rparr>]
        else [])"

definition word_count :: "string \<Rightarrow> nat embedding" where
  "word_count text = Embedded (length (split_on (CHR '' '') text))"

definition id_distance :: "nat \<Rightarrow> entry \<Rightarrow> nat" where
  "id_distance v x = (if entry_id x = ''s2'' then 0 else v)"

section \<open>Theorems\<close>

subsection \<open>The medical record\<close>

lemma scale_total_sum:
  "all_scored d \<Longrightarrow> scale_total acc d = Some (acc + score_sum d)"
proof (induction d arbitrary: acc)
  case Nil
  then show ?case by (simp add: score_sum_def)
next
  case (Cons p d)
  obtain name v where p: "p = (name, v)" by (cases p)
  from Cons.prems obtain x where x: "final_score v = Some x" and rest: "all_scored d"
    by (auto simp: all_scored_def p)
  have "scale_total acc (p # d) = scale_total (acc + x) d"
    by (simp add: p x)
  also have "\<dots> = Some (acc + x + score_sum d)"
    by (rule Cons.IH [OF rest])
  also have "acc + x + score_sum d = acc + score_sum (p # d)"
    by (simp add: score_sum_def p x)
  finally show ?case .
qed

text \<open>
  C7. When the record is created, its \<open>totalImprovementScore\<close> is the sum of
  \<open>final_score\<close> over the pre-session scale results minus the sum over the post-session
  results; a record is created whenever every result carries its score. Pre-session
  scales totalling 20 and post-session scales totalling 12 give 8.
\<close>

theorem improvement_score_is_pre_minus_post:
  assumes "initial_scales_result state = Some pre"
    and "scales_result_after_consultation state = Some post"
    and "all_scored pre" and "all_scored post"
  shows "\<exists>r. create_student_medical_record state therapy_type = Some r \<and>
             totalImprovementScore r = score_sum pre - score_sum post \<and>
             initialScaleResults r = pre \<and> finalScaleResults r = post"
  using assms
  by (simp add: create_student_medical_record_def scale_total_sum)

theorem improvement_score_is_pre_minus_post_witness:
  "score_sum example_pre = 20 \<and> score_sum example_post = 12 \<and>
   (\<exists>r. create_student_medical_record example_record_state ''cbt'' = Some r \<and>
        totalImprovementScore r = 8)"
proof -
  have pre: "initial_scales_result example_record_state = Some example_pre"
    by (simp add: example_record_state_def)
  have post: "scales_result_after_consultation example_record_state = Some example_post"
    by (simp add: example_record_state_def)
  have a: "all_scored example_pre" by (simp add: all_scored_def example_pre_def)
  have b: "all_scored example_post" by (simp add: all_scored_def example_post_def)
  have s1: "score_sum example_pre = 20" by (simp add: score_sum_def example_pre_def)
  have s2: "score_sum example_post = 12" by (simp add: score_sum_def example_post_def)
  from improvement_score_is_pre_minus_post [OF pre post a b, of "''cbt''"]
  have "\<exists>r. create_student_medical_record example_record_state ''cbt'' = Some r \<and>
             totalImprovementScore r = 8"
    by (auto simp: s1 s2)
  with s1 s2 show ?thesis by blast
qed

subsection \<open>The structured oracle call\<close>

text \<open>
  C8, as the code has it. When the response cannot be parsed, \<open>invoke_json\<close> returns
  the default value if one is supplied; with no default it does not fail but returns the
  dictionary with the single key \<open>error\<close> holding the parser's message. It fails only
  when the model call itself fails and no default is supplied, and then with the
  exception of that call.
\<close>

theorem invoke_json_on_failure:
  "(llm (sent_prompt prompt) = Inr response_text \<and>
      loads (parsed_text response_text) = Inl msg \<longrightarrow>
      invoke_json loads llm prompt (Some d) = Inr d \<and>
      invoke_json loads llm prompt None =
        Inr (JObj [(''error'', JStr (json_fail_prefix @ msg))])) \<and>
   (llm (sent_prompt prompt) = Inl e \<longrightarrow>
      invoke_json loads llm prompt (Some d) = Inr d \<and>
      invoke_json loads llm prompt None = Inl e)"
  by (simp add: invoke_json_def sent_prompt_def parsed_text_def)

theorem invoke_json_on_failure_witness:
  "invoke_json strict_loads (\<lambda>p. Inr ''I cannot answer'') ''Rate the reply'' (Some (JObj [])) =
     Inr (JObj []) \<and>
   invoke_json strict_loads (\<lambda>p. Inr ''I cannot answer'') ''Rate the reply'' None =
     Inr (JObj [(''error'', JStr (json_fail_prefix @ ''Expecting value''))])"
proof -
  have p: "parsed_text ''I cannot answer'' = ''I cannot answer''"
    by (simp add: parsed_text_def json_match_def)
  have l: "strict_loads (parsed_text ''I cannot answer'') = Inl ''Expecting value''"
    by (simp add: p strict_loads_def)
  from invoke_json_on_failure [of "\<lambda>p. Inr ''I cannot answer''" "''Rate the reply''"
      "''I cannot answer''" strict_loads "''Expecting value''" "JObj []"] l
  show ?thesis by simp
qed

text \<open>
  The claim as the specification words it fails: with no default and a response that is
  not JSON, the call returns a value instead of failing.
\<close>

theorem invoke_json_no_default_counterexample:
  "\<not> (\<exists>e. invoke_json strict_loads (\<lambda>p. Inr ''I cannot answer'') ''Rate the reply'' None = Inl e)"
  by (simp add: invoke_json_def json_match_def strict_loads_def)

subsection \<open>The stage loop\<close>

lemma check_flag:
  assumes "check_cbt_stage_complete c st = Inr st2"
  shows "is_stage_complete st2 (current_stage st) =
           Some (reached (stage_turns st2 (current_stage st)) (max_dialogues_of c (current_stage st)) \<or>
                 reached (completed_count st2 (current_stage st))
                   (completion_threshold_of c (current_stage st)))"
  using assms
  by (auto simp: check_cbt_stage_complete_def Let_def current_stage_def reached_def stage_turns_def
        completed_count_def ensure_stage_completions_def ensure_stage_dialogues_def
      split: option.splits if_splits)

lemma handle_sets_stage:
  assumes "handle_cbt_stage c st s orc = Inr st1"
  shows "current_stage st1 = s"
  using assms
  by (auto simp: handle_cbt_stage_def Let_def update_topic_scores_def
        evaluate_stage_completion_def current_stage_def
      split: option.splits if_splits)

lemma not_isl_projr: "\<not> isl x \<Longrightarrow> x = Inr (projr x)"
  by (cases x) auto

text \<open>
  C1, as the code has it. After a stage's handler and its completion check have run, the
  flag of the stage is true exactly when the stage's turn counter has reached
  \<open>max_dialogues\<close> or the number of elements accumulated for the stage has reached
  \<open>completion_threshold\<close> (by default the number of required elements). The
  accumulated elements are the distinct strings the evaluator has reported as completed,
  whether or not they are required elements of the stage. With required elements A, B,
  C, threshold 3 and at most 5 turns: one new element a turn completes the stage at
  turn 3; element A alone leaves it incomplete after 4 turns and completes it at turn 5.
\<close>

theorem stage_complete_iff:
  "(handle_cbt_stage c st s orc = Inr st1 \<and> check_cbt_stage_complete c st1 = Inr st2 \<longrightarrow>
      is_stage_complete st2 s =
        Some (reached (stage_turns st2 s) (max_dialogues_of c s) \<or>
              reached (completed_count st2 s) (completion_threshold_of c s))) \<and>
   session_stage_turns example_controller Stage1 (Some ''exam anxiety'')
     [reports [''A''], reports [''B''], reports [''C''], reports [], reports []] = Some 3 \<and>
   session_stage_turns example_controller Stage1 (Some ''exam anxiety'')
     [reports [''A''], reports [''A''], reports [''A''], reports [''A'']] = None \<and>
   session_stage_turns example_controller Stage1 (Some ''exam anxiety'')
     [reports [''A''], reports [''A''], reports [''A''], reports [''A''], reports [''A''],
      reports [''A''], reports [''A'']] = Some 5"
proof -
  have general: "is_stage_complete st2 s =
        Some (reached (stage_turns st2 s) (max_dialogues_of c s) \<or>
              reached (completed_count st2 s) (completion_threshold_of c s))"
    if h: "handle_cbt_stage c st s orc = Inr st1" and k: "check_cbt_stage_complete c st1 = Inr st2"
    using check_flag [OF k] handle_sets_stage [OF h] by simp
  have e1: "session_stage_turns example_controller Stage1 (Some ''exam anxiety'')
     [reports [''A''], reports [''B''], reports [''C''], reports [], reports []] = Some 3"
    by code_simp
  have e2: "session_stage_turns example_controller Stage1 (Some ''exam anxiety'')
     [reports [''A''], reports [''A''], reports [''A''], reports [''A'']] = None"
    by code_simp
  have e3: "session_stage_turns example_controller Stage1 (Some ''exam anxiety'')
     [reports [''A''], reports [''A''], reports [''A''], reports [''A''], reports [''A''],
      reports [''A''], reports [''A'']] = Some 5"
    by code_simp
  from general e1 e2 e3 show ?thesis by blast
qed

theorem stage_complete_iff_witness:
  "\<exists>st1 st2.
     handle_cbt_stage example_controller (initialize_state blank_state) Stage1 (reports [''A''])
       = Inr st1 \<and>
     check_cbt_stage_complete example_controller st1 = Inr st2 \<and>
     is_stage_complete st2 Stage1 =
       Some (reached (stage_turns st2 Stage1) (max_dialogues_of example_controller Stage1) \<or>
             reached (completed_count st2 Stage1)
               (completion_threshold_of example_controller Stage1))"
proof -
  let ?h = "handle_cbt_stage example_controller (initialize_state blank_state) Stage1
              (reports [''A''])"
  let ?k = "check_cbt_stage_complete example_controller (projr ?h)"
  have "\<not> isl ?h" by code_simp
  then have h: "?h = Inr (projr ?h)" by (rule not_isl_projr)
  have "\<not> isl ?k" by code_simp
  then have k: "?k = Inr (projr ?k)" by (rule not_isl_projr)
  from stage_complete_iff [of example_controller "initialize_state blank_state" Stage1
      "reports [''A'']" "projr ?h" "projr ?k"] h k
  show ?thesis by blast
qed

text \<open>
  C1 fails as it is stated, with the count taken over the required elements. With
  required elements A, B, C, threshold 3 and at most 5 turns, a first turn in which the
  evaluator reports the elements X, Y and Z leaves the flag of the stage true after the
  check, while the counter is 2, below 5, and no required element is completed, with a
  threshold of 3.
\<close>

theorem stage_complete_without_required_counterexample:
  "flag_after example_controller (Some ''exam anxiety'')
     [CbtStage Stage1 (reports [''X'', ''Y'', ''Z'']), CheckStageComplete] Stage1 = Some True \<and>
   turns_after example_controller (Some ''exam anxiety'')
     [CbtStage Stage1 (reports [''X'', ''Y'', ''Z'']), CheckStageComplete] Stage1 = Some 2 \<and>
   max_dialogues_of example_controller Stage1 = 5 \<and>
   required_completed_after example_controller (Some ''exam anxiety'')
     [CbtStage Stage1 (reports [''X'', ''Y'', ''Z'']), CheckStageComplete] Stage1 = Some 0 \<and>
   completion_threshold_of example_controller Stage1 = 3"
  by code_simp

text \<open>
  C2 fails on the code. In the specification's own example the counter of stage 1 is 2
  after the second turn and still 2 after the third: when the third element is reported,
  \<open>_evaluate_stage_completion\<close> sets the counter to 1 before the handler adds 1.
\<close>

theorem turn_counter_reset_on_completion:
  "turns_after example_controller (Some ''exam anxiety'')
     [CbtStage Stage1 (reports [''A'']), CheckStageComplete,
      CbtStage Stage1 (reports [''B'']), CheckStageComplete] Stage1 = Some 2 \<and>
   turns_after example_controller (Some ''exam anxiety'')
     [CbtStage Stage1 (reports [''A'']), CheckStageComplete,
      CbtStage Stage1 (reports [''B'']), CheckStageComplete,
      CbtStage Stage1 (reports [''C''])] Stage1 = Some 2"
  by code_simp

subsection \<open>The completion flags\<close>

lemma all_stages_UNIV: "set all_stages = UNIV"
proof -
  have "s \<in> set all_stages" for s by (cases s) (simp_all add: all_stages_def)
  then show ?thesis by blast
qed

lemma threshold_within_requiredD:
  "threshold_within_required c \<Longrightarrow>
     completion_threshold_of c s \<le> int (length (required_elements_of c s))"
  using all_stages_UNIV by (auto simp: threshold_within_required_def list_all_iff)

lemma flags_justified_iff:
  "flags_justified c st \<longleftrightarrow>
     (\<forall>s. is_stage_complete st s = Some True \<longrightarrow>
          reached (stage_turns st s) (max_dialogues_of c s) \<or>
          reached (completed_count st s) (completion_threshold_of c s))"
  using all_stages_UNIV by (auto simp: flags_justified_def list_all_iff)

lemma length_add_completed: "length done \<le> length (add_completed xs done)"
proof -
  have "length acc \<le> length (fold (\<lambda>element acc. if element \<in> set acc then acc else acc @ [element]) xs acc)" for acc
  proof (induction xs arbitrary: acc)
    case Nil
    show ?case by simp
  next
    case (Cons x xs)
    show ?case
    proof (cases "x \<in> set acc")
      case True
      then show ?thesis using Cons.IH [of acc] by simp
    next
      case False
      then show ?thesis using Cons.IH [of "acc @ [x]"] by simp
    qed
  qed
  then show ?thesis by (simp add: add_completed_def)
qed

lemma ensure_dialogues_justified:
  "flags_justified c st \<Longrightarrow> flags_justified c (ensure_stage_dialogues st)"
  by (auto simp: flags_justified_iff ensure_stage_dialogues_def reached_def stage_turns_def
      completed_count_def split: option.splits)

lemma ensure_completions_justified:
  "flags_justified c st \<Longrightarrow> flags_justified c (ensure_stage_completions st)"
  by (auto simp: flags_justified_iff ensure_stage_completions_def reached_def stage_turns_def
      completed_count_def split: option.splits)

lemma ensure_topics_justified:
  "flags_justified c st \<Longrightarrow> flags_justified c (ensure_topic_scores st)"
  by (auto simp: flags_justified_iff ensure_topic_scores_def reached_def stage_turns_def
      completed_count_def split: option.splits)

lemma update_topics_justified:
  "flags_justified c st \<Longrightarrow> flags_justified c (update_topic_scores c st r t)"
  by (auto simp: flags_justified_iff update_topic_scores_def Let_def reached_def stage_turns_def
      completed_count_def split: option.splits)

lemma evaluate_justified:
  assumes cfg: "threshold_within_required c" and inv: "flags_justified c st"
  shows "flags_justified c (evaluate_stage_completion c st s r)"
proof (cases r)
  case None
  then show ?thesis using inv by (simp add: evaluate_stage_completion_def)
next
  case (Some completed)
  show ?thesis
  proof (cases "cbt_stage_completions st")
    case None
    then show ?thesis using inv Some by (simp add: evaluate_stage_completion_def)
  next
    case (Some cs)
    note cs = this
    have grow: "int (length (cs s)) \<le> int (length (add_completed completed (cs s)))"
      using length_add_completed [of "cs s" completed] by simp
    have thr: "completion_threshold_of c s \<le> int (length (required_elements_of c s))"
      by (rule threshold_within_requiredD [OF cfg])
    show ?thesis
      using inv \<open>r = Some completed\<close> cs grow thr
      by (auto simp: flags_justified_iff evaluate_stage_completion_def Let_def reached_def
          stage_turns_def completed_count_def split: option.splits if_splits)
  qed
qed


lemma justified_current [simp]:
  "flags_justified c (st\<lparr>current_cbt_stage := x\<rparr>) = flags_justified c st"
  by (simp add: flags_justified_iff stage_turns_def completed_count_def)

lemma justified_history [simp]:
  "flags_justified c (st\<lparr>dialogue_history := x\<rparr>) = flags_justified c st"
  by (simp add: flags_justified_iff stage_turns_def completed_count_def)

lemma increment_justified:
  assumes "flags_justified c st" and "cbt_stage_dialogues st = Some d"
  shows "flags_justified c (st\<lparr>cbt_stage_dialogues := Some (d(s := d s + 1))\<rparr>)"
  using assms
  by (auto simp: flags_justified_iff reached_def stage_turns_def completed_count_def
      split: option.splits)

lemma handle_justified:
  assumes cfg: "threshold_within_required c" and inv: "flags_justified c st"
    and run: "handle_cbt_stage c st s orc = Inr st'"
  shows "flags_justified c st'"
proof -
  let ?st0 = "ensure_topic_scores (ensure_stage_completions (ensure_stage_dialogues st))"
  have inv0: "flags_justified c ?st0"
    by (intro ensure_topics_justified ensure_completions_justified ensure_dialogues_justified inv)
  from run obtain response user_response d where
    st': "st' = (evaluate_stage_completion c
                  (update_topic_scores c
                     (?st0\<lparr>current_cbt_stage := Some s,
                           dialogue_history := dialogue_history ?st0 @ [therapist_prefix @ response],
                           dialogue_history := dialogue_history ?st0 @ [therapist_prefix @ response]
                              @ [user_prefix @ user_response]\<rparr>)
                     (topic_relevance orc) (select_best_topic (?st0\<lparr>current_cbt_stage := Some s\<rparr>)))
                  s (stage_completion orc))
               \<lparr>cbt_stage_dialogues := Some (d(s := d s + 1))\<rparr>"
    and d: "cbt_stage_dialogues (evaluate_stage_completion c
                  (update_topic_scores c
                     (?st0\<lparr>current_cbt_stage := Some s,
                           dialogue_history := dialogue_history ?st0 @ [therapist_prefix @ response],
                           dialogue_history := dialogue_history ?st0 @ [therapist_prefix @ response]
                              @ [user_prefix @ user_response]\<rparr>)
                     (topic_relevance orc) (select_best_topic (?st0\<lparr>current_cbt_stage := Some s\<rparr>)))
                  s (stage_completion orc)) = Some d"
    by (auto simp: handle_cbt_stage_def Let_def split: option.splits if_splits)
  show ?thesis
    unfolding st'
    by (rule increment_justified [OF _ d])
       (intro evaluate_justified update_topics_justified cfg, simp add: inv0)
qed


lemma check_justified:
  assumes inv: "flags_justified c st" and run: "check_cbt_stage_complete c st = Inr st'"
  shows "flags_justified c st'"
proof -
  let ?st0 = "ensure_stage_completions (ensure_stage_dialogues st)"
  have inv0: "flags_justified c ?st0"
    by (intro ensure_completions_justified ensure_dialogues_justified inv)
  from run inv0 show ?thesis
    unfolding check_cbt_stage_complete_def Let_def
    by (auto simp: flags_justified_iff reached_def stage_turns_def completed_count_def
        split: option.splits if_splits)
qed

lemma initialize_topics_justified:
  assumes inv: "flags_justified c st" and run: "initialize_cbt_topics c st answer = Inr st'"
  shows "flags_justified c st'"
  using assms
  by (auto simp: initialize_cbt_topics_def Let_def flags_justified_iff reached_def stage_turns_def
      completed_count_def split: option.splits if_splits)

lemma node_justified:
  assumes "threshold_within_required c" and "flags_justified c st"
    and "run_node c st n = Inr st'"
  shows "flags_justified c st'"
  using assms
  by (cases n) (auto intro: handle_justified check_justified initialize_topics_justified)

lemma evaluate_keeps_flag:
  "is_stage_complete st s = Some True \<Longrightarrow>
     is_stage_complete (evaluate_stage_completion c st s' r) s = Some True"
  by (auto simp: evaluate_stage_completion_def Let_def split: option.splits)

lemma flag_simps [simp]:
  "is_stage_complete (ensure_stage_dialogues st) = is_stage_complete st"
  "is_stage_complete (ensure_stage_completions st) = is_stage_complete st"
  "is_stage_complete (ensure_topic_scores st) = is_stage_complete st"
  "is_stage_complete (update_topic_scores c st r t) = is_stage_complete st"
  by (auto simp: ensure_stage_dialogues_def ensure_stage_completions_def ensure_topic_scores_def
      update_topic_scores_def Let_def split: option.splits)

lemma handle_keeps_flag:
  assumes "is_stage_complete st s = Some True" and "handle_cbt_stage c st s' orc = Inr st'"
  shows "is_stage_complete st' s = Some True"
  using assms
  by (auto simp: handle_cbt_stage_def Let_def evaluate_keeps_flag split: option.splits if_splits)

lemma check_keeps_flag:
  assumes inv: "flags_justified c st" and flag: "is_stage_complete st s = Some True"
    and run: "check_cbt_stage_complete c st = Inr st'"
  shows "is_stage_complete st' s = Some True"
proof -
  let ?st0 = "ensure_stage_completions (ensure_stage_dialogues st)"
  have inv0: "flags_justified c ?st0"
    by (intro ensure_completions_justified ensure_dialogues_justified inv)
  have flag0: "is_stage_complete ?st0 s = Some True" using flag by simp
  from run inv0 flag0 show ?thesis
    unfolding check_cbt_stage_complete_def Let_def
    by (auto simp: flags_justified_iff reached_def stage_turns_def completed_count_def
        split: option.splits if_splits)
qed

lemma initialize_topics_keeps_flag:
  assumes "is_stage_complete st s = Some True" and "initialize_cbt_topics c st answer = Inr st'"
  shows "is_stage_complete st' s = Some True"
  using assms
  by (auto simp: initialize_cbt_topics_def Let_def split: option.splits if_splits)

lemma node_keeps_flag:
  assumes "flags_justified c st" and "is_stage_complete st s = Some True"
    and "run_node c st n = Inr st'"
  shows "is_stage_complete st' s = Some True"
  using assms
  by (cases n) (auto intro: handle_keeps_flag check_keeps_flag initialize_topics_keeps_flag)

lemma nodes_justified:
  assumes "threshold_within_required c"
  shows "flags_justified c st \<Longrightarrow> run_nodes c st ns = Inr st' \<Longrightarrow> flags_justified c st'"
proof (induction ns arbitrary: st)
  case Nil
  then show ?case by simp
next
  case (Cons n ns)
  from Cons.prems(2) obtain st1 where n: "run_node c st n = Inr st1"
    and rest: "run_nodes c st1 ns = Inr st'"
    by (auto split: sum.splits)
  from node_justified [OF assms Cons.prems(1) n] rest show ?case by (rule Cons.IH)
qed

lemma nodes_keep_flag:
  assumes "threshold_within_required c"
  shows "flags_justified c st \<Longrightarrow> is_stage_complete st s = Some True \<Longrightarrow>
         run_nodes c st ns = Inr st' \<Longrightarrow> is_stage_complete st' s = Some True"
proof (induction ns arbitrary: st)
  case Nil
  then show ?case by simp
next
  case (Cons n ns)
  from Cons.prems(3) obtain st1 where n: "run_node c st n = Inr st1"
    and rest: "run_nodes c st1 ns = Inr st'"
    by (auto split: sum.splits)
  have "flags_justified c st1" by (rule node_justified [OF assms Cons.prems(1) n])
  moreover have "is_stage_complete st1 s = Some True"
    by (rule node_keeps_flag [OF Cons.prems(1) Cons.prems(2) n])
  ultimately show ?case using rest by (rule Cons.IH)
qed

lemma initialize_state_justified:
  "no_stage_complete st \<Longrightarrow> flags_justified c (initialize_state st)"
  using all_stages_UNIV
  by (auto simp: no_stage_complete_def flags_justified_def list_all_iff initialize_state_def)

text \<open>
  C3, as the code has it. When no stage asks for more completed elements than it has
  required elements (the default threshold is their number), a completion flag that is
  true after some nodes of a session is true after any further topic initialisation,
  stage handler and completion check of that session.
\<close>

theorem completion_flag_stays_true:
  assumes "threshold_within_required c"
    and "no_stage_complete st0"
    and "run_nodes c (initialize_state st0) earlier = Inr st1"
    and "is_stage_complete st1 s = Some True"
    and "run_nodes c st1 later = Inr st2"
  shows "is_stage_complete st2 s = Some True"
proof -
  have "flags_justified c (initialize_state st0)"
    by (rule initialize_state_justified [OF assms(2)])
  then have "flags_justified c st1"
    using assms(3) by (rule nodes_justified [OF assms(1)])
  then show ?thesis
    using assms(4,5) by (rule nodes_keep_flag [OF assms(1)])
qed


theorem completion_flag_stays_true_witness:
  "threshold_within_required example_controller \<and> no_stage_complete blank_state \<and>
   (\<exists>st1 st2. run_nodes example_controller (initialize_state blank_state) example_earlier = Inr st1 \<and>
      is_stage_complete st1 Stage1 = Some True \<and>
      run_nodes example_controller st1 example_later = Inr st2 \<and>
      is_stage_complete st2 Stage1 = Some True)"
proof -
  let ?a = "run_nodes example_controller (initialize_state blank_state) example_earlier"
  let ?b = "run_nodes example_controller (projr ?a) example_later"
  have cfg: "threshold_within_required example_controller" by code_simp
  have fresh: "no_stage_complete blank_state" by code_simp
  have "\<not> isl ?a" by code_simp
  then have a: "?a = Inr (projr ?a)" by (cases ?a) auto
  have flag: "is_stage_complete (projr ?a) Stage1 = Some True" by code_simp
  have "\<not> isl ?b" by code_simp
  then have b: "?b = Inr (projr ?b)" by (cases ?b) auto
  from completion_flag_stays_true [OF cfg fresh a flag b] a b flag cfg fresh
  show ?thesis by blast
qed




text \<open>
  The claim as the specification words it, for every configuration, fails: with one
  required element and a threshold of two, the handler sets the flag when the element is
  reported and the check that follows sets it back to false.
\<close>

theorem completion_flag_reset_counterexample:
  "flag_after strict_controller (Some ''exam anxiety'') [CbtStage Stage1 (reports [''A''])] Stage1 = Some True \<and>
   flag_after strict_controller (Some ''exam anxiety'') [CbtStage Stage1 (reports [''A'']), CheckStageComplete] Stage1 = Some False"
  by code_simp

subsection \<open>The topic scores\<close>










lemma update_topic_scores_fields [simp]:
  "cbt_topics_initialized (update_topic_scores c st r t) = cbt_topics_initialized st"
  "cbt_stage_dialogues (update_topic_scores c st r t) = cbt_stage_dialogues st"
  "cbt_stage_completions (update_topic_scores c st r t) = cbt_stage_completions st"
  by (auto simp: update_topic_scores_def Let_def split: option.splits)

lemma evaluate_fields [simp]:
  "cbt_topics_initialized (evaluate_stage_completion c st s r) = cbt_topics_initialized st"
  "topic_scores (evaluate_stage_completion c st s r) = topic_scores st"
  by (auto simp: evaluate_stage_completion_def Let_def split: option.splits)











subsection \<open>Reconciliation of the two stores\<close>

lemma add_document_cases:
  assumes "add_document e S c i doc m = Some S'"
  shows "(i \<in> entry_ids (S c) \<and> S' = S) \<or>
         (i \<notin> entry_ids (S c) \<and>
          S' = S(c := S c @ [\<lparr>entry_id = i, document = doc, metadatas = m\<rparr>]))"
  using assms
  by (auto simp: add_document_def chroma_add_def split: if_splits option.splits)

lemma add_document_dup:
  assumes "i \<in> entry_ids (S c)"
  shows "add_document e S c i doc m = None \<or> add_document e S c i doc m = Some S"
  using assms by (auto simp: add_document_def chroma_add_def)

lemma entry_ids_append [simp]: "entry_ids (xs @ ys) = entry_ids xs \<union> entry_ids ys"
  by (auto simp: entry_ids_def)

lemma sync_docs_adds:
  "sync_docs e c ids S docs = (S', log) \<Longrightarrow>
     \<exists>added. S' c = S c @ added \<and> distinct (map entry_id added) \<and>
             (\<forall>x \<in> set added. entry_id x \<notin> ids \<and> entry_id x \<notin> entry_ids (S c)) \<and>
             (\<forall>c'. c' \<noteq> c \<longrightarrow> S' c' = S c')"
proof (induction docs arbitrary: S)
  case Nil
  then show ?case by simp
next
  case (Cons doc rest)
  show ?case
  proof (cases "truthy_id doc")
    case None
    with Cons.prems have "sync_docs e c ids S rest = (S', log)" by simp
    then show ?thesis by (rule Cons.IH)
  next
    case (Some i)
    show ?thesis
    proof (cases "i \<in> ids")
      case True
      with Some Cons.prems have "sync_docs e c ids S rest = (S', log)" by simp
      then show ?thesis by (rule Cons.IH)
    next
      case False
      show ?thesis
      proof (cases "add_document e S c i doc (build_metadata_for_document c doc)")
        case None
        with Some False Cons.prems have "S' = S" by simp
        then show ?thesis by simp
      next
        case (Some S1)
        with \<open>truthy_id doc = Some i\<close> False Cons.prems
        have rest: "sync_docs e c ids S1 rest = (S', log)" by simp
        from Cons.IH [OF rest] obtain added where
          a: "S' c = S1 c @ added" "distinct (map entry_id added)"
             "\<forall>x \<in> set added. entry_id x \<notin> ids \<and> entry_id x \<notin> entry_ids (S1 c)"
             "\<forall>c'. c' \<noteq> c \<longrightarrow> S' c' = S1 c'" by blast
        from add_document_cases [OF Some] show ?thesis
        proof
          assume "i \<in> entry_ids (S c) \<and> S1 = S"
          with a show ?thesis by blast
        next
          assume h: "i \<notin> entry_ids (S c) \<and>
            S1 = S(c := S c @ [\<lparr>entry_id = i, document = doc,
                               metadatas = build_metadata_for_document c doc\<rparr>])"
          let ?x = "\<lparr>entry_id = i, document = doc,
                     metadatas = build_metadata_for_document c doc\<rparr>"
          from h have S1c: "S1 c = S c @ [?x]" by simp
          have 1: "S' c = S c @ (?x # added)" using a(1) S1c by simp
          have 2: "distinct (map entry_id (?x # added))"
            using a(2,3) S1c by (auto simp: entry_ids_def)
          have 3: "\<forall>x \<in> set (?x # added). entry_id x \<notin> ids \<and> entry_id x \<notin> entry_ids (S c)"
            using a(3) S1c False h by auto
          have 4: "\<forall>c'. c' \<noteq> c \<longrightarrow> S' c' = S c'" using a(4) h by simp
          from 1 2 3 4 show ?thesis by blast
        qed
      qed
    qed
  qed
qed


lemma sync_docs_mirrors:
  "sync_docs e c ids S docs = (S', []) \<Longrightarrow>
     \<forall>doc \<in> set docs. \<forall>i. truthy_id doc = Some i \<longrightarrow> i \<in> ids \<or> i \<in> entry_ids (S' c)"
proof (induction docs arbitrary: S)
  case Nil
  then show ?case by simp
next
  case (Cons doc rest)
  show ?case
  proof (cases "truthy_id doc")
    case None
    with Cons.prems have "sync_docs e c ids S rest = (S', [])" by simp
    from Cons.IH [OF this] None show ?thesis by simp
  next
    case (Some i)
    show ?thesis
    proof (cases "i \<in> ids")
      case True
      with Some Cons.prems have "sync_docs e c ids S rest = (S', [])" by simp
      from Cons.IH [OF this] Some True show ?thesis by simp
    next
      case False
      show ?thesis
      proof (cases "add_document e S c i doc (build_metadata_for_document c doc)")
        case None
        with Some False Cons.prems show ?thesis by simp
      next
        case (Some S1)
        with \<open>truthy_id doc = Some i\<close> False Cons.prems
        have rest: "sync_docs e c ids S1 rest = (S', [])" by simp
        from add_document_cases [OF Some] have "i \<in> entry_ids (S1 c)"
          by (auto simp: entry_ids_def)
        moreover from sync_docs_adds [OF rest] have "entry_ids (S1 c) \<subseteq> entry_ids (S' c)"
          by auto
        ultimately have "i \<in> entry_ids (S' c)" by blast
        with Cons.IH [OF rest] \<open>truthy_id doc = Some i\<close> show ?thesis by simp
      qed
    qed
  qed
qed

lemma sync_docs_unchanged:
  "\<forall>doc \<in> set docs. \<forall>i. truthy_id doc = Some i \<longrightarrow> i \<in> ids \<or> i \<in> entry_ids (S c) \<Longrightarrow>
     fst (sync_docs e c ids S docs) = S"
proof (induction docs)
  case Nil
  then show ?case by simp
next
  case (Cons doc rest)
  then have IH: "fst (sync_docs e c ids S rest) = S" by simp
  show ?case
  proof (cases "truthy_id doc")
    case None
    with IH show ?thesis by simp
  next
    case (Some i)
    show ?thesis
    proof (cases "i \<in> ids")
      case True
      with Some IH show ?thesis by simp
    next
      case False
      with Some Cons.prems have "i \<in> entry_ids (S c)" by simp
      then have "add_document e S c i doc (build_metadata_for_document c doc) = None \<or>
                 add_document e S c i doc (build_metadata_for_document c doc) = Some S"
        by (rule add_document_dup)
      then show ?thesis using Some False IH by auto
    qed
  qed
qed

lemma seen_ids_mono:
  assumes "S' c = S c @ added"
  shows "seen_ids e S c \<subseteq> seen_ids e S' c"
proof -
  have "set (take 10000 (S c)) \<subseteq> set (take 10000 (S c @ added))" by auto
  then show ?thesis
    unfolding seen_ids_def search_all_def assms by (auto simp: map_filter_def)
qed

lemma seen_ids_weaker:
  assumes "get_fails e2 c \<longrightarrow> get_fails e1 c"
  shows "seen_ids e1 S c \<subseteq> seen_ids e2 S c"
  using assms by (auto simp: seen_ids_def search_all_def)

lemma mirrored_iff:
  "mirrored e json S c \<longleftrightarrow>
     (\<forall>doc \<in> set (json c). \<forall>i. truthy_id doc = Some i \<longrightarrow>
        i \<in> seen_ids e S c \<or> i \<in> entry_ids (S c))"
  by (auto simp: mirrored_def list_all_iff split: option.splits)

lemma extends_refl: "extends S S"
  by (simp add: extends_def)

lemma extends_trans: "extends S S' \<Longrightarrow> extends S' S'' \<Longrightarrow> extends S S''"
  unfolding extends_def
proof
  fix c
  assume a: "\<forall>c. \<exists>added. S' c = S c @ added" and b: "\<forall>c. \<exists>added. S'' c = S' c @ added"
  from a obtain x where "S' c = S c @ x" by blast
  moreover from b obtain y where "S'' c = S' c @ y" by blast
  ultimately have "S'' c = S c @ (x @ y)" by simp
  then show "\<exists>added. S'' c = S c @ added" by blast
qed

lemma mirrored_mono:
  assumes "mirrored e json S c" and "extends S S'"
  shows "mirrored e json S' c"
proof -
  from assms(2) obtain added where a: "S' c = S c @ added" unfolding extends_def by blast
  have v: "seen_ids e S c \<subseteq> seen_ids e S' c" using a by (rule seen_ids_mono)
  have i: "entry_ids (S c) \<subseteq> entry_ids (S' c)" using a by simp
  from assms(1) v i show ?thesis unfolding mirrored_iff by blast
qed

lemma sync_collection_extends:
  assumes "sync_collection e json S c = (S', log)"
  shows "extends S S'"
proof (cases "json c = []")
  case True
  with assms show ?thesis by (simp add: sync_collection_def extends_refl)
next
  case False
  with assms have "sync_docs e c (seen_ids e S c) S (json c) = (S', log)"
    by (simp add: sync_collection_def)
  from sync_docs_adds [OF this] obtain added where
    a: "S' c = S c @ added" "\<forall>c'. c' \<noteq> c \<longrightarrow> S' c' = S c'" by blast
  show ?thesis
    unfolding extends_def
  proof
    fix c'
    show "\<exists>added. S' c' = S c' @ added"
    proof (cases "c' = c")
      case True
      with a(1) show ?thesis by blast
    next
      case False
      with a(2) have "S' c' = S c' @ []" by simp
      then show ?thesis by blast
    qed
  qed
qed

lemma sync_collection_mirrors:
  assumes "sync_collection e json S c = (S', [])"
  shows "mirrored e json S' c"
proof (cases "json c = []")
  case True
  then show ?thesis by (simp add: mirrored_def)
next
  case False
  with assms have run: "sync_docs e c (seen_ids e S c) S (json c) = (S', [])"
    by (simp add: sync_collection_def)
  from sync_docs_adds [OF run] obtain added where a: "S' c = S c @ added" by blast
  have "seen_ids e S c \<subseteq> seen_ids e S' c" using a by (rule seen_ids_mono)
  with sync_docs_mirrors [OF run] show ?thesis unfolding mirrored_iff by blast
qed

lemma sync_collection_unchanged:
  assumes "mirrored e1 json S c" and "get_fails e2 c \<longrightarrow> get_fails e1 c"
  shows "fst (sync_collection e2 json S c) = S"
proof (cases "json c = []")
  case True
  then show ?thesis by (simp add: sync_collection_def)
next
  case False
  have sub: "seen_ids e1 S c \<subseteq> seen_ids e2 S c" using assms(2) by (rule seen_ids_weaker)
  have "fst (sync_docs e2 c (seen_ids e2 S c) S (json c)) = S"
  proof (rule sync_docs_unchanged)
    show "\<forall>doc\<in>set (json c). \<forall>i. truthy_id doc = Some i \<longrightarrow>
            i \<in> seen_ids e2 S c \<or> i \<in> entry_ids (S c)"
      using assms(1) sub unfolding mirrored_iff by blast
  qed
  with False show ?thesis by (simp add: sync_collection_def)
qed

lemma sync_collections_result:
  "sync_collections e json S cs = (S1, []) \<Longrightarrow>
     extends S S1 \<and> (\<forall>c \<in> set cs. mirrored e json S1 c)"
proof (induction cs arbitrary: S)
  case Nil
  then show ?case by (simp add: extends_refl)
next
  case (Cons c cs)
  obtain S' log where first: "sync_collection e json S c = (S', log)"
    by (cases "sync_collection e json S c")
  obtain S'' log' where rest: "sync_collections e json S' cs = (S'', log')"
    by (cases "sync_collections e json S' cs")
  from Cons.prems first rest have eq: "S'' = S1" "log = []" "log' = []" by simp_all
  from rest eq have rest1: "sync_collections e json S' cs = (S1, [])" by simp
  from Cons.IH [OF rest1] have ext: "extends S' S1" and m: "\<forall>c \<in> set cs. mirrored e json S1 c"
    by blast+
  from first eq have "mirrored e json S' c" by (simp add: sync_collection_mirrors)
  then have "mirrored e json S1 c" using ext by (rule mirrored_mono)
  moreover have "extends S S1"
    using sync_collection_extends [OF first] ext by (rule extends_trans)
  ultimately show ?case using m by simp
qed

lemma sync_collections_unchanged:
  "\<forall>c \<in> set cs. mirrored e1 json S c \<Longrightarrow> \<forall>c. get_fails e2 c \<longrightarrow> get_fails e1 c \<Longrightarrow>
     fst (sync_collections e2 json S cs) = S"
proof (induction cs)
  case Nil
  then show ?case by simp
next
  case (Cons c cs)
  from Cons.prems have "mirrored e1 json S c" and "get_fails e2 c \<longrightarrow> get_fails e1 c"
    by simp_all
  then have first: "fst (sync_collection e2 json S c) = S"
    by (rule sync_collection_unchanged)
  from Cons have rest: "fst (sync_collections e2 json S cs) = S" by simp
  from first rest show ?case
    by (auto split: prod.splits)
qed

lemma import_docs_result:
  "import_docs e c S docs = Inr (S', log) \<Longrightarrow>
     extends S S' \<and>
     (log = [] \<longrightarrow> (\<forall>doc \<in> set docs. \<forall>i. doc_get doc ''id'' = Some i \<longrightarrow> i \<in> entry_ids (S' c)))"
proof (induction docs arbitrary: S S' log)
  case Nil
  then show ?case by (simp add: extends_refl)
next
  case (Cons doc rest)
  from Cons.prems obtain i where i: "doc_get doc ''id'' = Some i"
    by (auto split: option.splits)
  show ?case
  proof (cases "add_document e S c i doc (import_metadata c doc)")
    case None
    with i Cons.prems obtain log' where
      rest: "import_docs e c S rest = Inr (S', log')" and log: "log = ImportFailed c i # log'"
      by (auto split: sum.splits)
    from Cons.IH [OF rest] log show ?thesis by simp
  next
    case (Some S1)
    with i Cons.prems have rest: "import_docs e c S1 rest = Inr (S', log)" by simp
    from Cons.IH [OF rest] have ext1: "extends S1 S'"
      and m: "log = [] \<longrightarrow> (\<forall>doc \<in> set rest. \<forall>i. doc_get doc ''id'' = Some i \<longrightarrow>
                 i \<in> entry_ids (S' c))" by blast+
    from add_document_cases [OF Some] have in1: "i \<in> entry_ids (S1 c)"
      by (auto simp: entry_ids_def)
    from add_document_cases [OF Some] have ext0: "extends S S1"
      unfolding extends_def
    proof
      assume "i \<in> entry_ids (S c) \<and> S1 = S"
      then show "\<forall>c. \<exists>added. S1 c = S c @ added" by simp
    next
      assume h: "i \<notin> entry_ids (S c) \<and>
         S1 = S(c := S c @ [\<lparr>entry_id = i, document = doc, metadatas = import_metadata c doc\<rparr>])"
      show "\<forall>c. \<exists>added. S1 c = S c @ added"
      proof
        fix c'
        show "\<exists>added. S1 c' = S c' @ added"
        proof (cases "c' = c")
          case True
          with h show ?thesis by simp
        next
          case False
          with h have "S1 c' = S c' @ []" by simp
          then show ?thesis by blast
        qed
      qed
    qed
    from ext1 obtain added where "S' c = S1 c @ added" unfolding extends_def by blast
    with in1 have "i \<in> entry_ids (S' c)" by simp
    with m i extends_trans [OF ext0 ext1] show ?thesis by auto
  qed
qed

lemma map_of_dict_set_other: "k \<noteq> k' \<Longrightarrow> map_of (dict_set d k v) k' = map_of d k'"
  by (induction d k v rule: dict_set.induct) auto

lemma format_doc_id: "doc_get (format_doc now c doc) ''id'' = doc_get doc ''id''"
  by (auto simp: format_doc_def doc_get_def Let_def map_of_dict_set_other)

lemma truthy_id_get: "truthy_id doc = Some i \<Longrightarrow> doc_get doc ''id'' = Some i"
  by (auto simp: truthy_id_def split: option.splits if_splits)

lemma import_collection_result:
  assumes "import_collection e now json S c = Inr (S', log)"
  shows "extends S S' \<and> (log = [] \<longrightarrow> mirrored e' json S' c)"
proof -
  from assms have run: "import_docs e c S (json_to_vector_db_format now json c) = Inr (S', log)"
    by (simp add: import_collection_def)
  from import_docs_result [OF run] have ext: "extends S S'"
    and m: "log = [] \<longrightarrow> (\<forall>doc \<in> set (json_to_vector_db_format now json c).
               \<forall>i. doc_get doc ''id'' = Some i \<longrightarrow> i \<in> entry_ids (S' c))" by blast+
  have "mirrored e' json S' c" if "log = []"
    unfolding mirrored_iff
  proof (intro ballI allI impI)
    fix doc i assume d: "doc \<in> set (json c)" and t: "truthy_id doc = Some i"
    let ?doc' = "format_doc now c doc"
    have d': "?doc' \<in> set (json_to_vector_db_format now json c)"
      using d by (simp add: json_to_vector_db_format_def)
    from truthy_id_get [OF t] have "doc_get ?doc' ''id'' = Some i"
      by (simp add: format_doc_id)
    with m that d' have "i \<in> entry_ids (S' c)" by blast
    then show "i \<in> seen_ids e' S' c \<or> i \<in> entry_ids (S' c)" by simp
  qed
  with ext show ?thesis by blast
qed

lemma import_collections_result:
  "import_collections e now json S cs = Inr (S1, []) \<Longrightarrow>
     extends S S1 \<and> (\<forall>c \<in> set cs. mirrored e json S1 c)"
proof (induction cs arbitrary: S)
  case Nil
  then show ?case by (simp add: extends_refl)
next
  case (Cons c cs)
  from Cons.prems obtain S' log log' where
    first: "import_collection e now json S c = Inr (S', log)"
    and rest: "import_collections e now json S' cs = Inr (S1, log')"
    and logs: "log @ log' = []"
    by (auto split: sum.splits prod.splits)
  from logs have l: "log = []" "log' = []" by simp_all
  from rest l have rest1: "import_collections e now json S' cs = Inr (S1, [])" by simp
  from Cons.IH [OF rest1] have ext: "extends S' S1" and m: "\<forall>c \<in> set cs. mirrored e json S1 c"
    by blast+
  from import_collection_result [OF first, of e] l have ext0: "extends S S'"
    and "mirrored e json S' c" by blast+
  then have "mirrored e json S1 c" using ext mirrored_mono by blast
  moreover have "extends S S1" using ext0 ext by (rule extends_trans)
  ultimately show ?case using m by simp
qed

lemma initialize_sync:
  "initialize e now True tts json S = Inr (S1, log) \<longleftrightarrow>
     \<not> init_fails e \<and> sync_collections e json S (collection_names tts) = (S1, log)"
  by (auto simp: initialize_def init_collections_def sync_json_and_vector_db_def)

lemma initialize_mirrors:
  assumes "initialize e now ex tts json S = Inr (S1, [])"
  shows "\<forall>c \<in> set (collection_names tts). mirrored e json S1 c"
proof (cases ex)
  case True
  with assms have "sync_collections e json S (collection_names tts) = (S1, [])"
    by (simp add: initialize_sync)
  from sync_collections_result [OF this] show ?thesis by blast
next
  case False
  with assms have "import_collections e now json (\<lambda>collection_name. []) (collection_names tts)
                    = Inr (S1, [])"
    by (simp add: initialize_def rebuild_vector_db_from_json_def init_collections_def
        split: if_splits)
  from import_collections_result [OF this] show ?thesis by blast
qed

text \<open>A run under faults that recur: what the first run added is read back by the second.\<close>

lemma map_of_dict_update_other:
  "k \<notin> fst ` set other \<Longrightarrow> map_of (dict_update d other) k = map_of d k"
  unfolding dict_update_def
  by (induction other arbitrary: d) (auto simp: map_of_dict_set_other)

lemma metadata_has_no_id: "''id'' \<notin> fst ` set (build_metadata_for_document c doc)"
proof -
  consider (p) "c = ''profiler_skills''"
    | (t) "c \<noteq> ''profiler_skills''" "startswith c ''therapist_''"
    | (m) "c \<noteq> ''profiler_skills''" "\<not> startswith c ''therapist_''" "c = ''medical_records''"
    | (v) "c \<noteq> ''profiler_skills''" "\<not> startswith c ''therapist_''" "c \<noteq> ''medical_records''"
          "c = ''student_vectors''"
    | (o) "c \<noteq> ''profiler_skills''" "\<not> startswith c ''therapist_''" "c \<noteq> ''medical_records''"
          "c \<noteq> ''student_vectors''"
    by blast
  then show ?thesis
  proof cases
    case p
    then show ?thesis by (simp add: build_metadata_for_document_def)
  next
    case t
    then show ?thesis by (simp add: build_metadata_for_document_def)
  next
    case m
    then show ?thesis by (simp only: build_metadata_for_document_def if_True if_False) simp
  next
    case v
    then show ?thesis by (simp only: build_metadata_for_document_def if_True if_False Let_def) simp
  next
    case o
    then show ?thesis by (simp only: build_metadata_for_document_def if_True if_False) simp
  qed
qed

lemma merged_sync_entry:
  "truthy_id (merged \<lparr>entry_id = i, document = doc,
                      metadatas = build_metadata_for_document c doc\<rparr>) = truthy_id doc"
  by (simp add: merged_def truthy_id_def doc_get_def
      map_of_dict_update_other [OF metadata_has_no_id])

lemma grown_refl: "grown e S S"
  by (simp add: grown_def)

lemma grown_trans:
  assumes "grown e S S'" and "grown e S' S''"
  shows "grown e S S''"
  unfolding grown_def
proof
  fix c
  from assms(1) obtain x where x: "S' c = S c @ x"
    "\<forall>y \<in> set x. \<not> add_fails e c (entry_id y) \<and> truthy_id (merged y) = Some (entry_id y)"
    unfolding grown_def by blast
  from assms(2) obtain x' where x': "S'' c = S' c @ x'"
    "\<forall>y \<in> set x'. \<not> add_fails e c (entry_id y) \<and> truthy_id (merged y) = Some (entry_id y)"
    unfolding grown_def by blast
  from x x' have "S'' c = S c @ (x @ x')" by simp
  moreover from x x' have
    "\<forall>y \<in> set (x @ x'). \<not> add_fails e c (entry_id y) \<and> truthy_id (merged y) = Some (entry_id y)"
    by auto
  ultimately show "\<exists>added. S'' c = S c @ added \<and>
    (\<forall>y \<in> set added. \<not> add_fails e c (entry_id y) \<and> truthy_id (merged y) = Some (entry_id y))"
    by blast
qed

lemma add_document_grown:
  assumes add: "add_document e S c i doc (build_metadata_for_document c doc) = Some S1"
    and i: "truthy_id doc = Some i"
  shows "grown e S S1"
proof -
  let ?x = "\<lparr>entry_id = i, document = doc, metadatas = build_metadata_for_document c doc\<rparr>"
  from add have ok: "\<not> add_fails e c i"
    by (auto simp: add_document_def chroma_add_def split: if_splits)
  from add_document_cases [OF add] show ?thesis
  proof
    assume "i \<in> entry_ids (S c) \<and> S1 = S"
    then show ?thesis by (simp add: grown_refl)
  next
    assume h: "i \<notin> entry_ids (S c) \<and> S1 = S(c := S c @ [?x])"
    show ?thesis
      unfolding grown_def
    proof
      fix c'
      show "\<exists>added. S1 c' = S c' @ added \<and>
        (\<forall>y \<in> set added. \<not> add_fails e c' (entry_id y) \<and>
                          truthy_id (merged y) = Some (entry_id y))"
      proof (cases "c' = c")
        case True
        have "S1 c' = S c' @ [?x]" using h True by simp
        moreover have "\<forall>y \<in> set [?x]. \<not> add_fails e c' (entry_id y) \<and>
                          truthy_id (merged y) = Some (entry_id y)"
          using ok i True by (simp add: merged_sync_entry)
        ultimately show ?thesis by blast
      next
        case False
        with h have "S1 c' = S c' @ []" by simp
        then show ?thesis by force
      qed
    qed
  qed
qed

lemma sync_docs_grown:
  "sync_docs e c ids S docs = (S', log) \<Longrightarrow> grown e S S'"
proof (induction docs arbitrary: S)
  case Nil
  then show ?case by (simp add: grown_refl)
next
  case (Cons doc rest)
  show ?case
  proof (cases "truthy_id doc")
    case None
    with Cons.prems have "sync_docs e c ids S rest = (S', log)" by simp
    then show ?thesis by (rule Cons.IH)
  next
    case (Some i)
    show ?thesis
    proof (cases "i \<in> ids")
      case True
      with Some Cons.prems have "sync_docs e c ids S rest = (S', log)" by simp
      then show ?thesis by (rule Cons.IH)
    next
      case False
      show ?thesis
      proof (cases "add_document e S c i doc (build_metadata_for_document c doc)")
        case None
        with Some False Cons.prems have "S' = S" by simp
        then show ?thesis by (simp add: grown_refl)
      next
        case (Some S1)
        with \<open>truthy_id doc = Some i\<close> False Cons.prems
        have rest: "sync_docs e c ids S1 rest = (S', log)" by simp
        have "grown e S S1" using Some \<open>truthy_id doc = Some i\<close> by (rule add_document_grown)
        then show ?thesis using Cons.IH [OF rest] by (rule grown_trans)
      qed
    qed
  qed
qed

lemma sync_collection_grown:
  assumes "sync_collection e json S c = (S', log)"
  shows "grown e S S'"
proof (cases "json c = []")
  case True
  with assms show ?thesis by (simp add: sync_collection_def grown_refl)
next
  case False
  with assms have "sync_docs e c (seen_ids e S c) S (json c) = (S', log)"
    by (simp add: sync_collection_def)
  then show ?thesis by (rule sync_docs_grown)
qed

lemma sync_collections_grown:
  "sync_collections e json S cs = (S', log) \<Longrightarrow> grown e S S'"
proof (induction cs arbitrary: S log)
  case Nil
  then show ?case by (simp add: grown_refl)
next
  case (Cons c cs)
  obtain S1 l1 where first: "sync_collection e json S c = (S1, l1)"
    by (cases "sync_collection e json S c")
  obtain S2 l2 where rest: "sync_collections e json S1 cs = (S2, l2)"
    by (cases "sync_collections e json S1 cs")
  from Cons.prems first rest have "S2 = S'" by simp
  with rest have "grown e S1 S'" using Cons.IH by blast
  with sync_collection_grown [OF first] show ?case by (rule grown_trans)
qed

lemma seen_ids_grown:
  assumes "grown e S T"
  shows "seen_ids e S c \<subseteq> seen_ids e T c \<and>
         (\<forall>j \<in> seen_ids e T c - seen_ids e S c. \<not> add_fails e c j)"
proof -
  from assms obtain added where a: "T c = S c @ added"
    and ok: "\<forall>y \<in> set added. \<not> add_fails e c (entry_id y) \<and>
                              truthy_id (merged y) = Some (entry_id y)"
    unfolding grown_def by blast
  have sub: "seen_ids e S c \<subseteq> seen_ids e T c" using a by (rule seen_ids_mono)
  have "\<not> add_fails e c j" if j: "j \<in> seen_ids e T c" "j \<notin> seen_ids e S c" for j
  proof -
    from j(1) have reads: "\<not> get_fails e c"
      unfolding seen_ids_def search_all_def by (auto split: if_splits)
    with j(1) have "\<exists>y \<in> set (take 10000 (S c @ added)). truthy_id (merged y) = Some j"
      unfolding seen_ids_def search_all_def a by (auto simp: map_filter_def)
    then obtain y where y: "y \<in> set (take 10000 (S c @ added))"
      "truthy_id (merged y) = Some j" by blast
    from y(1) have "y \<in> set (take 10000 (S c)) \<or> y \<in> set added"
      by (auto dest: in_set_takeD)
    then show ?thesis
    proof
      assume "y \<in> set (take 10000 (S c))"
      with y(2) reads have "j \<in> seen_ids e S c"
        unfolding seen_ids_def search_all_def by (force simp: map_filter_def)
      with j(2) show ?thesis by simp
    next
      assume "y \<in> set added"
      with ok y(2) show ?thesis by auto
    qed
  qed
  with sub show ?thesis by blast
qed

lemma sync_docs_rerun:
  assumes "sync_docs e c ids S docs = (S1, log)"
    and "entry_ids (S1 c) \<subseteq> entry_ids (T c)"
    and "ids \<subseteq> ids'"
    and "\<forall>j \<in> ids' - ids. \<not> add_fails e c j"
    and "\<not> dup_raises e"
  shows "fst (sync_docs e c ids' T docs) = T"
  using assms(1)
proof (induction docs arbitrary: S)
  case Nil
  then show ?case by simp
next
  case (Cons doc rest)
  show ?case
  proof (cases "truthy_id doc")
    case None
    with Cons.prems have "sync_docs e c ids S rest = (S1, log)" by simp
    from Cons.IH [OF this] None show ?thesis by simp
  next
    case (Some i)
    show ?thesis
    proof (cases "i \<in> ids")
      case True
      with Some Cons.prems have "sync_docs e c ids S rest = (S1, log)" by simp
      from Cons.IH [OF this] have "fst (sync_docs e c ids' T rest) = T" .
      moreover from True assms(3) have "i \<in> ids'" by blast
      ultimately show ?thesis using Some by simp
    next
      case False
      show ?thesis
      proof (cases "add_document e S c i doc (build_metadata_for_document c doc)")
        case None
        with assms(5) have fails: "add_fails e c i"
          by (auto simp: add_document_def chroma_add_def split: if_splits option.splits)
        with assms(4) False have "i \<notin> ids'" by blast
        moreover from fails have
          "add_document e T c i doc (build_metadata_for_document c doc) = None"
          by (simp add: add_document_def chroma_add_def)
        ultimately show ?thesis using Some by simp
      next
        case (Some S')
        with \<open>truthy_id doc = Some i\<close> False Cons.prems
        have rest: "sync_docs e c ids S' rest = (S1, log)" by simp
        from Cons.IH [OF rest] have IH: "fst (sync_docs e c ids' T rest) = T" .
        from Some have ok: "\<not> add_fails e c i"
          by (auto simp: add_document_def chroma_add_def split: if_splits)
        from add_document_cases [OF Some] have "i \<in> entry_ids (S' c)"
          by (auto simp: entry_ids_def)
        moreover from sync_docs_adds [OF rest] have "entry_ids (S' c) \<subseteq> entry_ids (S1 c)"
          by auto
        ultimately have "i \<in> entry_ids (T c)" using assms(2) by blast
        with ok assms(5) have
          "add_document e T c i doc (build_metadata_for_document c doc) = Some T"
          by (simp add: add_document_def chroma_add_def)
        with IH \<open>truthy_id doc = Some i\<close> show ?thesis by simp
      qed
    qed
  qed
qed

lemma grown_entry_ids: "grown e S T \<Longrightarrow> entry_ids (S c) \<subseteq> entry_ids (T c)"
  unfolding grown_def
proof -
  assume "\<forall>c. \<exists>added. T c = S c @ added \<and>
     (\<forall>x\<in>set added. \<not> add_fails e c (entry_id x) \<and> truthy_id (merged x) = Some (entry_id x))"
  then obtain added where "T c = S c @ added" by blast
  then show ?thesis by simp
qed

lemma sync_collection_rerun:
  assumes run: "sync_collection e json S c = (S1, log)"
    and later: "grown e S1 T"
    and dup: "\<not> dup_raises e"
  shows "fst (sync_collection e json T c) = T"
proof (cases "json c = []")
  case True
  then show ?thesis by (simp add: sync_collection_def)
next
  case False
  with run have docs: "sync_docs e c (seen_ids e S c) S (json c) = (S1, log)"
    by (simp add: sync_collection_def)
  have "grown e S T" using sync_collection_grown [OF run] later by (rule grown_trans)
  from seen_ids_grown [OF this, of c] have sub: "seen_ids e S c \<subseteq> seen_ids e T c"
    and new: "\<forall>j \<in> seen_ids e T c - seen_ids e S c. \<not> add_fails e c j" by blast+
  have ids: "entry_ids (S1 c) \<subseteq> entry_ids (T c)" using later by (rule grown_entry_ids)
  have "fst (sync_docs e c (seen_ids e T c) T (json c)) = T"
    using docs ids sub new dup by (rule sync_docs_rerun)
  with False show ?thesis by (simp add: sync_collection_def)
qed

lemma sync_collections_rerun:
  "sync_collections e json S cs = (S1, log) \<Longrightarrow> grown e S1 T \<Longrightarrow> \<not> dup_raises e \<Longrightarrow>
     fst (sync_collections e json T cs) = T"
proof (induction cs arbitrary: S log)
  case Nil
  then show ?case by simp
next
  case (Cons c cs)
  obtain S' l1 where first: "sync_collection e json S c = (S', l1)"
    by (cases "sync_collection e json S c")
  obtain S'' l2 where rest: "sync_collections e json S' cs = (S'', l2)"
    by (cases "sync_collections e json S' cs")
  from Cons.prems(1) first rest have eq: "S'' = S1" by simp
  with rest have rest1: "sync_collections e json S' cs = (S1, l2)" by simp
  have "grown e S' T"
    using sync_collections_grown [OF rest1] Cons.prems(2) by (rule grown_trans)
  with first have head: "fst (sync_collection e json T c) = T"
    using Cons.prems(3) by (rule sync_collection_rerun)
  from Cons.IH [OF rest1 Cons.prems(2) Cons.prems(3)]
  have tail: "fst (sync_collections e json T cs) = T" .
  from head tail show ?case by (auto split: prod.splits)
qed

text \<open>
  C5, as far as the code has it. A second run of \<open>initialize\<close> on the store the first
  run left, with the primary store unchanged, either raises while it opens the
  collections, before any insertion, or returns the secondary store exactly as it was,
  in two cases: when the first run logged no failure and the second can read every
  collection the first could read; and when both runs are incremental and meet the same
  faults, with a vector database that ignores an identifier it already has. And in
  every run \<open>_sync_collection\<close> only appends entries to its own collection, each under
  an identifier that is neither among the identifiers its search returned nor among the
  identifiers of the collection.
\<close>

theorem reconciliation_idempotent:
  "(initialize e1 now1 exists1 therapy_types json S = Inr (S1, []) \<and>
    (\<forall>c. get_fails e2 c \<longrightarrow> get_fails e1 c) \<longrightarrow>
      initialize e2 now2 True therapy_types json S1 = Inl VectorDbError \<or>
      (\<exists>log. initialize e2 now2 True therapy_types json S1 = Inr (S1, log))) \<and>
   (initialize e now1 True therapy_types json S = Inr (S1, log1) \<and> \<not> dup_raises e \<longrightarrow>
      (\<exists>log. initialize e now2 True therapy_types json S1 = Inr (S1, log))) \<and>
   (sync_collection e json S c = (S', log') \<longrightarrow>
      (\<exists>added. S' c = S c @ added \<and> distinct (map entry_id added) \<and>
         (\<forall>x \<in> set added. entry_id x \<notin> seen_ids e S c \<and> entry_id x \<notin> entry_ids (S c)) \<and>
         (\<forall>c'. c' \<noteq> c \<longrightarrow> S' c' = S c')))"
proof (intro conjI impI)
  assume a: "initialize e1 now1 exists1 therapy_types json S = Inr (S1, []) \<and>
             (\<forall>c. get_fails e2 c \<longrightarrow> get_fails e1 c)"
  then have m: "\<forall>c \<in> set (collection_names therapy_types). mirrored e1 json S1 c"
    using initialize_mirrors by blast
  from a have "fst (sync_collections e2 json S1 (collection_names therapy_types)) = S1"
    using sync_collections_unchanged [OF m] by blast
  then show "initialize e2 now2 True therapy_types json S1 = Inl VectorDbError \<or>
      (\<exists>log. initialize e2 now2 True therapy_types json S1 = Inr (S1, log))"
    by (cases "sync_collections e2 json S1 (collection_names therapy_types)")
       (simp add: initialize_def init_collections_def sync_json_and_vector_db_def)
next
  assume b: "initialize e now1 True therapy_types json S = Inr (S1, log1) \<and> \<not> dup_raises e"
  then have init: "\<not> init_fails e"
    and run: "sync_collections e json S (collection_names therapy_types) = (S1, log1)"
    by (simp_all add: initialize_sync)
  from b have "fst (sync_collections e json S1 (collection_names therapy_types)) = S1"
    using sync_collections_rerun [OF run grown_refl] by blast
  with init show "\<exists>log. initialize e now2 True therapy_types json S1 = Inr (S1, log)"
    by (cases "sync_collections e json S1 (collection_names therapy_types)")
       (simp add: initialize_sync)
next
  assume run: "sync_collection e json S c = (S', log')"
  show "\<exists>added. S' c = S c @ added \<and> distinct (map entry_id added) \<and>
         (\<forall>x \<in> set added. entry_id x \<notin> seen_ids e S c \<and> entry_id x \<notin> entry_ids (S c)) \<and>
         (\<forall>c'. c' \<noteq> c \<longrightarrow> S' c' = S c')"
  proof (cases "json c = []")
    case True
    with run have "S' = S" by (simp add: sync_collection_def)
    then show ?thesis by simp
  next
    case False
    with run have "sync_docs e c (seen_ids e S c) S (json c) = (S', log')"
      by (simp add: sync_collection_def)
    then show ?thesis by (rule sync_docs_adds)
  qed
qed

theorem reconciliation_idempotent_witness:
  "\<exists>S1 T1.
     initialize no_faults ''1700000000'' True [''cbt''] example_json empty_store = Inr (S1, []) \<and>
     stored_ids S1 ''profiler_skills'' = [''s1'', ''s2'', ''s3''] \<and>
     (\<exists>log. initialize no_faults ''1700000060'' True [''cbt''] example_json S1 = Inr (S1, log)) \<and>
     initialize s2_fails ''1700000000'' True [''cbt''] example_json empty_store
       = Inr (T1, [SyncFailed ''profiler_skills'']) \<and>
     stored_ids T1 ''profiler_skills'' = [''s1''] \<and>
     (\<exists>log. initialize s2_fails ''1700000060'' True [''cbt''] example_json T1 = Inr (T1, log)) \<and>
     distinct (stored_ids S1 ''profiler_skills'')"
proof -
  let ?r = "initialize no_faults ''1700000000'' True [''cbt''] example_json empty_store"
  let ?S1 = "fst (projr ?r)"
  have "\<not> isl ?r" by code_simp
  moreover have "snd (projr ?r) = []" by code_simp
  ultimately have r: "?r = Inr (?S1, [])" by (cases ?r) auto
  have ids: "stored_ids ?S1 ''profiler_skills'' = [''s1'', ''s2'', ''s3'']" by code_simp
  have reads: "\<forall>c. get_fails no_faults c \<longrightarrow> get_fails no_faults c" by simp
  let ?t = "initialize s2_fails ''1700000000'' True [''cbt''] example_json empty_store"
  let ?T1 = "fst (projr ?t)"
  have "\<not> isl ?t" by code_simp
  moreover have "snd (projr ?t) = [SyncFailed ''profiler_skills'']" by code_simp
  ultimately have t: "?t = Inr (?T1, [SyncFailed ''profiler_skills''])" by (cases ?t) auto
  have tids: "stored_ids ?T1 ''profiler_skills'' = [''s1'']" by code_simp
  have dup: "\<not> dup_raises s2_fails" by (simp add: s2_fails_def no_faults_def)
  let ?p = "sync_collection no_faults example_json empty_store ''profiler_skills''"
  have p: "?p = (fst ?p, snd ?p)" by simp
  have same: "stored_ids (fst ?p) ''profiler_skills'' = stored_ids ?S1 ''profiler_skills''"
    by code_simp
  note first = reconciliation_idempotent [of no_faults "''1700000000''" True "[''cbt'']"
      example_json empty_store ?S1 no_faults "''1700000060''" no_faults "[]"
      "''profiler_skills''" "fst ?p" "snd ?p"]
  note second = reconciliation_idempotent [of s2_fails "''1700000000''" True "[''cbt'']"
      example_json empty_store ?T1 s2_fails "''1700000060''" s2_fails
      "[SyncFailed ''profiler_skills'']" "''profiler_skills''" "fst ?p" "snd ?p"]
  have starts: "initialize no_faults ''1700000060'' True [''cbt''] example_json ?S1
                  \<noteq> Inl VectorDbError"
    by (simp add: initialize_def init_collections_def no_faults_def)
  from first r reads starts
  have 1: "\<exists>log. initialize no_faults ''1700000060'' True [''cbt''] example_json ?S1
                   = Inr (?S1, log)" by blast
  from second t dup
  have 2: "\<exists>log. initialize s2_fails ''1700000060'' True [''cbt''] example_json ?T1
                   = Inr (?T1, log)" by blast
  from first p obtain added where
    "fst ?p ''profiler_skills'' = empty_store ''profiler_skills'' @ added"
    "distinct (map entry_id added)" by blast
  then have "distinct (stored_ids (fst ?p) ''profiler_skills'')"
    by (simp add: stored_ids_def empty_store_def)
  with same have 3: "distinct (stored_ids ?S1 ''profiler_skills'')" by simp
  from r ids 1 t tids 2 3 show ?thesis by blast
qed

text \<open>
  C5 fails as it is stated. The vector database exists and is empty, the primary
  collection has the documents \<open>s1\<close>, \<open>s2\<close>, \<open>s3\<close>, and in the first run the
  insertion of \<open>s1\<close> raises; nothing is written between the runs. The first run
  leaves the collection empty, and the second run, in which no call fails, inserts three
  documents.
\<close>

theorem second_run_inserts_counterexample:
  "ids_after_two_runs s1_fails no_faults [''cbt''] example_json empty_store ''profiler_skills''
     = Some ([], [''s1'', ''s2'', ''s3''])"
  by code_simp

text \<open>
  C6 fails on the incremental pass. With three documents in the primary collection and
  the insertion of the first one raising, \<open>_sync_collection\<close> logs one failure for the
  collection and inserts none of the other two; \<open>_import_collection\<close>, on the same
  input, logs the failed document and inserts the other two.
\<close>

theorem sync_abandons_collection_after_failed_insert:
  "stored_ids (fst (sync_collection s1_fails example_json empty_store ''profiler_skills''))
     ''profiler_skills'' = [] \<and>
   snd (sync_collection s1_fails example_json empty_store ''profiler_skills'')
     = [SyncFailed ''profiler_skills''] \<and>
   map_sum id (\<lambda>(S, log). (stored_ids S ''profiler_skills'', log))
     (import_collection s1_fails ''1700000000'' example_json empty_store ''profiler_skills'')
     = Inr ([''s2'', ''s3''], [ImportFailed ''profiler_skills'' ''s1''])"
  by code_simp

subsection \<open>Skill memories\<close>

text \<open>
  C9, as the code has it. With a query text whose embedding succeeds, the result is the
  similarity search of the secondary store for the \<open>limit\<close> nearest entries, so it
  has at most \<open>limit\<close> documents. Without a query text, or when the embedding
  service returns nothing, the result is the first 100 documents of the collection in
  store order, whatever \<open>limit\<close> is.
\<close>

theorem get_skill_memory_results:
  "(get_skill_collection_name agent_type therapy_type = Some c \<and>
      query_text = Some text \<and> text \<noteq> [] \<and> get_text_embedding text = Embedded v \<longrightarrow>
      get_skill_memory e get_text_embedding dist json store agent_type therapy_type query_text limit =
        (if query_fails e c then [] else map merged (take limit (sort_key (dist v) (store c)))) \<and>
      length (get_skill_memory e get_text_embedding dist json store agent_type therapy_type query_text limit)
        \<le> limit) \<and>
   (get_skill_collection_name agent_type therapy_type = Some c \<and>
      (query_text = None \<or> query_text = Some [] \<or>
       (\<exists>text. query_text = Some text \<and> get_text_embedding text = NoEmbedding)) \<longrightarrow>
      get_skill_memory e get_text_embedding dist json store agent_type therapy_type query_text limit =
        (if get_fails e c then [] else map merged (take 100 (store c))))"
  by (auto simp: get_skill_memory_def search_documents_def chroma_query_def Let_def
      split: option.splits embedding.splits)

theorem get_skill_memory_results_witness:
  "get_skill_memory no_faults word_count id_distance example_json two_skills
     ''profiler'' None (Some ''how to open'') 1 = [skill ''s2''] \<and>
   get_skill_memory no_faults word_count id_distance example_json two_skills
     ''profiler'' None None 1 = [skill ''s1'', skill ''s2'']"
proof -
  have n: "get_skill_collection_name ''profiler'' None = Some ''profiler_skills''"
    by (simp add: get_skill_collection_name_def)
  have emb: "word_count ''how to open'' = Embedded 3" by code_simp
  have a: "(if query_fails no_faults ''profiler_skills'' then []
            else map merged (take 1 (sort_key (id_distance 3) (two_skills ''profiler_skills''))))
           = [skill ''s2'']" by code_simp
  have b: "(if get_fails no_faults ''profiler_skills'' then []
            else map merged (take 100 (two_skills ''profiler_skills'')))
           = [skill ''s1'', skill ''s2'']" by code_simp
  from get_skill_memory_results [of "''profiler''" None "''profiler_skills''"
      "Some ''how to open''" "''how to open''" word_count 3 no_faults id_distance example_json
      two_skills 1] n emb a
  have 1: "get_skill_memory no_faults word_count id_distance example_json two_skills
     ''profiler'' None (Some ''how to open'') 1 = [skill ''s2'']" by simp
  from get_skill_memory_results [of "''profiler''" None "''profiler_skills''"
      None "''x''" word_count 3 no_faults id_distance example_json two_skills 1] n b
  have 2: "get_skill_memory no_faults word_count id_distance example_json two_skills
     ''profiler'' None None 1 = [skill ''s1'', skill ''s2'']" by simp
  from 1 2 show ?thesis by simp
qed

text \<open>
  The claim as the specification words it fails without a query text: with two stored
  skills and \<open>limit = 1\<close> both are returned.
\<close>

theorem get_skill_memory_ignores_limit_counterexample:
  "\<not> length (get_skill_memory no_faults word_count id_distance example_json two_skills
               ''profiler'' None None 1) \<le> 1"
  by code_simp

end
